theory Spec2Isabelle
  imports Main
begin

section \<open>Auto-vote on own topics: the theme component and its drafts\<close>

text \<open>
  The repository holds four drafts of one Discourse theme-component initializer:
  \<^item> \<^verbatim>\<open>javascripts/discourse/api-initializers/auto-vote-own-topic.js\<close>, the draft with
    logging forced on and four triggers; its definitions carry the suffix \<open>_dbg\<close>;
  \<^item> \<^verbatim>\<open>unnamed/part_000\<close>, the draft with the \<^verbatim>\<open>topic:created\<close> event and the
    navigation fallback; suffix \<open>_ev\<close>;
  \<^item> \<^verbatim>\<open>unnamed/part_001\<close>, the draft that votes from the composer's \<^verbatim>\<open>save\<close>;
    suffix \<open>_pre\<close>;
  \<^item> \<^verbatim>\<open>unnamed/part_002\<close>, "v1.4", the draft with name matching of categories, the
    vote UI update and the navigation trigger only; its definitions keep the source's names.

  Every draft is an initializer whose closures share the set \<^verbatim>\<open>autoVotedTopics\<close>. The
  model passes the world (console, requests sent, page, topic model) and the closure
  state explicitly. An \<^verbatim>\<open>async\<close> function is two functions, one up to its \<^verbatim>\<open>await\<close> and
  one for the rest, so that other events can come between them; a call to \<^verbatim>\<open>log\<close> is an
  entry in the console with the message text (the data arguments are left out).
\<close>

subsection \<open>Strings of the host language\<close>

text \<open>
  A string is a list of code units, and a character of this theory is a code unit below
  256. On these the definitions follow the host: whitespace is what \<^verbatim>\<open>trim\<close> and
  \<^verbatim>\<open>parseInt\<close> skip (tab, line feed, vertical tab, form feed, carriage return, space and
  the no-break space U+00A0), \<^verbatim>\<open>toLowerCase\<close> folds A to Z and the capital letters from
  U+00C0 to U+00DE (the multiplication sign U+00D7 is no letter), and the digits are 0 to
  9. A string with a code unit from 256 on is not a value of this type; for strings of any
  kind the category policy is stated a second time further down, with the host's string
  methods as parameters.
\<close>

definition isSpace :: "char \<Rightarrow> bool" where
  "isSpace c = (of_char c \<in> {9, 10, 11, 12, 13, 32, 160 :: nat})"

definition isDigit :: "char \<Rightarrow> bool" where
  "isDigit c = (48 \<le> (of_char c :: nat) \<and> (of_char c :: nat) \<le> 57)"

definition trim :: "string \<Rightarrow> string" where
  "trim s = rev (dropWhile isSpace (rev (dropWhile isSpace s)))"

definition lowerChar :: "char \<Rightarrow> char" where
  "lowerChar c =
     (if (65 \<le> (of_char c :: nat) \<and> (of_char c :: nat) \<le> 90)
         \<or> (192 \<le> (of_char c :: nat) \<and> (of_char c :: nat) \<le> 222 \<and> (of_char c :: nat) \<noteq> 215)
      then char_of (of_char c + (32 :: nat)) else c)"

definition toLowerCase :: "string \<Rightarrow> string" where
  "toLowerCase s = map lowerChar s"

text \<open>\<^verbatim>\<open>s.split("|")\<close>: the pieces between the pipes; the empty string gives one empty piece.\<close>

fun split_pipe :: "string \<Rightarrow> string list" where
  "split_pipe [] = [[]]"
| "split_pipe (c # cs) =
     (if c = CHR ''|'' then [] # split_pipe cs
      else (case split_pipe cs of
              [] \<Rightarrow> [[c]]
            | p # ps \<Rightarrow> (c # p) # ps))"

text \<open>\<^verbatim>\<open>s.includes(sub)\<close> on strings.\<close>

fun includes_str :: "string \<Rightarrow> string \<Rightarrow> bool" where
  "includes_str [] sub = (sub = [])"
| "includes_str (c # cs) sub = (take (length sub) (c # cs) = sub \<or> includes_str cs sub)"

text \<open>
  \<^verbatim>\<open>parseInt(s, 10)\<close>: leading whitespace is skipped, one sign is read, then the longest
  run of digits; \<open>None\<close> stands for \<^verbatim>\<open>NaN\<close>. The host computes in doubles; the model
  keeps the exact integer.
\<close>

definition digitValue :: "char \<Rightarrow> nat" where
  "digitValue c = of_char c - 48"

definition digitsValue :: "string \<Rightarrow> nat" where
  "digitsValue ds = foldl (\<lambda>acc c. 10 * acc + digitValue c) 0 ds"

definition parseInt :: "string \<Rightarrow> int option" where
  "parseInt s =
     (let t = dropWhile isSpace s;
          neg = (case t of [] \<Rightarrow> False | c # _ \<Rightarrow> c = CHR ''-'');
          u = (case t of [] \<Rightarrow> [] | c # r \<Rightarrow> if c = CHR ''-'' \<or> c = CHR ''+'' then r else t);
          ds = takeWhile isDigit u
      in if ds = [] then None
         else Some (if neg then - int (digitsValue ds) else int (digitsValue ds)))"

text \<open>\<^verbatim>\<open>String(n)\<close> for an integer.\<close>

fun digitsOf :: "nat \<Rightarrow> string" where
  "digitsOf n =
     (if n < 10 then [char_of (48 + n)]
      else digitsOf (n div 10) @ [char_of (48 + n mod 10)])"

declare digitsOf.simps [simp del]

definition stringOfInt :: "int \<Rightarrow> string" where
  "stringOfInt i = (if i < 0 then CHR ''-'' # digitsOf (nat (- i)) else digitsOf (nat i))"

text \<open>
  \<^verbatim>\<open>url.match(/\/t\/[^/]+\/(\d+)/)\<close>: the leftmost place where \<^verbatim>\<open>/t/\<close>, a non-empty
  segment without a slash, a slash and at least one digit follow each other; the result
  is the captured run of digits.
\<close>

definition matchHere :: "string \<Rightarrow> string option" where
  "matchHere s =
     (if take 3 s = ''/t/'' then
        (let rest = drop 3 s;
             seg = takeWhile (\<lambda>c. c \<noteq> CHR ''/'') rest;
             after = dropWhile (\<lambda>c. c \<noteq> CHR ''/'') rest
         in if seg = [] then None
            else (case after of
                    [] \<Rightarrow> None
                  | _ # r \<Rightarrow>
                      (let ds = takeWhile isDigit r in if ds = [] then None else Some ds)))
      else None)"

fun topicMatch :: "string \<Rightarrow> string option" where
  "topicMatch [] = None"
| "topicMatch (c # cs) =
     (case matchHere (c # cs) of
        Some ds \<Rightarrow> Some ds
      | None \<Rightarrow> topicMatch cs)"

subsection \<open>Data of the host platform\<close>

record settings =
  auto_vote_enabled :: bool
  auto_vote_categories :: "string option"
  auto_vote_debug_mode :: bool
  auto_vote_on_visit :: bool

record topic =
  topic_id :: int
  user_id :: int
  can_vote :: bool
  user_voted :: bool
  category_id :: int
  vote_count :: "int option"

record user =
  usr_id :: int
  username :: string
  votes_exceeded :: "bool option"
  votes_left :: "int option"

record category_ref =
  ref_slug :: string

record category =
  cat_id :: int
  cat_slug :: "string option"
  cat_name :: "string option"
  parentCategory :: "category_ref option"

record site =
  categories :: "category list option"


text \<open>The response body of \<^verbatim>\<open>POST /voting/vote\<close>; an absent field is \<open>None\<close>.\<close>

record response =
  resp_vote_count :: "int option"
  resp_can_vote :: "bool option"
  resp_votes_left :: "int option"

text \<open>
  How the promise of \<^verbatim>\<open>ajax\<close> settles: resolved with a body (\<open>None\<close> when the body is
  \<^verbatim>\<open>null\<close> or \<^verbatim>\<open>undefined\<close>), or rejected with \<^verbatim>\<open>error.jqXHR?.status\<close>.
\<close>

datatype ajax_result = Resolved "response option" | Rejected "int option"

text \<open>
  The three elements the component looks for with \<^verbatim>\<open>document.querySelector\<close>, as the
  voting plugin renders them: separate elements, each present or absent. A class list
  is a list without a meaning of order; the button carries the text of its first
  \<^verbatim>\<open>span\<close>, if it has one.
\<close>

record vote_button =
  btn_classes :: "string list"
  btn_span :: "string option"

record dom =
  voteCountEl :: "string option"
  voteButton :: "vote_button option"
  votingWrapper :: "string list option"

datatype console_line = ConsoleLog string | ConsoleError string

text \<open>
  What the component shares with its host: the browser console, the vote requests sent
  so far (the \<^verbatim>\<open>topic_id\<close> of each \<^verbatim>\<open>POST /voting/vote\<close>, oldest first), the page, and
  the model of \<^verbatim>\<open>controller:topic\<close>.
\<close>

record world =
  console :: "console_line list"
  outbox :: "int list"
  page :: dom
  model :: "topic option"

subsection \<open>The vote UI update (part_001 and part_002)\<close>

definition classList_remove :: "string \<Rightarrow> string list \<Rightarrow> string list" where
  "classList_remove k cs = filter (\<lambda>c. c \<noteq> k) cs"

definition classList_add :: "string \<Rightarrow> string list \<Rightarrow> string list" where
  "classList_add k cs = (if k \<in> set cs then cs else cs @ [k])"

definition markVoted :: "string list \<Rightarrow> string list" where
  "markVoted cs = classList_add ''vote'' (classList_remove ''nonvote'' cs)"

definition relabel :: "string option \<Rightarrow> string option" where
  "relabel sp =
     (case sp of
        None \<Rightarrow> None
      | Some txt \<Rightarrow> if includes_str (toLowerCase txt) ''vote'' then Some ''Voted'' else Some txt)"

text \<open>\<^verbatim>\<open>updateVoteUI\<close> of part_001 (no logging).\<close>

definition updateVoteUI_pre :: "int \<Rightarrow> dom \<Rightarrow> dom" where
  "updateVoteUI_pre voteCount d0 =
     (let d1 = (case voteCountEl d0 of
                  None \<Rightarrow> d0
                | Some _ \<Rightarrow> d0\<lparr>voteCountEl := Some (stringOfInt voteCount)\<rparr>);
          d2 = (case voteButton d1 of
                  None \<Rightarrow> d1
                | Some b \<Rightarrow>
                    d1\<lparr>voteButton :=
                         Some (b\<lparr>btn_classes := markVoted (btn_classes b),
                                 btn_span := relabel (btn_span b)\<rparr>)\<rparr>);
          d3 = (case votingWrapper d2 of
                  None \<Rightarrow> d2
                | Some cs \<Rightarrow> d2\<lparr>votingWrapper := Some (markVoted cs)\<rparr>)
      in d3)"

text \<open>\<^verbatim>\<open>log\<close> of part_000 and part_002: prints only in debug mode.\<close>

definition log :: "settings \<Rightarrow> string \<Rightarrow> world \<Rightarrow> world" where
  "log s msg w =
     (if auto_vote_debug_mode s then w\<lparr>console := console w @ [ConsoleLog msg]\<rparr> else w)"

text \<open>\<^verbatim>\<open>updateVoteUI\<close> of part_002: the same steps, each reported through \<^verbatim>\<open>log\<close>.\<close>

definition updateVoteUI :: "settings \<Rightarrow> int \<Rightarrow> world \<Rightarrow> world" where
  "updateVoteUI s voteCount w0 =
     (let w1 = log s ''Updating vote UI via DOM manipulation'' w0;
          w2 = (case voteCountEl (page w1) of
                  None \<Rightarrow> w1
                | Some _ \<Rightarrow>
                    log s (''Updated vote count to: '' @ stringOfInt voteCount)
                      (w1\<lparr>page := (page w1)\<lparr>voteCountEl := Some (stringOfInt voteCount)\<rparr>\<rparr>));
          w3 = (case voteButton (page w2) of
                  None \<Rightarrow> w2
                | Some b \<Rightarrow>
                    (let w2a = log s ''Updated vote button classes''
                                 (w2\<lparr>page := (page w2)\<lparr>voteButton :=
                                        Some (b\<lparr>btn_classes := markVoted (btn_classes b)\<rparr>)\<rparr>\<rparr>)
                     in w2a\<lparr>page := (page w2a)\<lparr>voteButton :=
                              Some (b\<lparr>btn_classes := markVoted (btn_classes b),
                                      btn_span := relabel (btn_span b)\<rparr>)\<rparr>\<rparr>));
          w4 = (case votingWrapper (page w3) of
                  None \<Rightarrow> w3
                | Some cs \<Rightarrow> w3\<lparr>page := (page w3)\<lparr>votingWrapper := Some (markVoted cs)\<rparr>\<rparr>)
      in w4)"

subsection \<open>The category policy\<close>

text \<open>\<^verbatim>\<open>lowerSettings.includes(x?.toLowerCase())\<close> for a field that may be absent.\<close>

definition includes_lower :: "string list \<Rightarrow> string option \<Rightarrow> bool" where
  "includes_lower lowerSettings x =
     (case x of None \<Rightarrow> False | Some v \<Rightarrow> toLowerCase v \<in> set lowerSettings)"

text \<open>
  The second try of \<^verbatim>\<open>isCategoryAllowed\<close> in part_001 and part_002: look the category
  up in the site's directory and compare slug, name and the path with the parent's slug.
\<close>

definition matchByName :: "site option \<Rightarrow> string list \<Rightarrow> int \<Rightarrow> bool" where
  "matchByName st categorySettings categoryId =
     (case st of
        None \<Rightarrow> False
      | Some sv \<Rightarrow>
          (case categories sv of
             None \<Rightarrow> False
           | Some cs \<Rightarrow>
               (case find (\<lambda>c. cat_id c = categoryId) cs of
                  None \<Rightarrow> False
                | Some cat \<Rightarrow>
                    (let lowerSettings = map toLowerCase categorySettings in
                     if includes_lower lowerSettings (cat_slug cat)
                        \<or> includes_lower lowerSettings (cat_name cat) then True
                     else (case cat_slug cat of
                             None \<Rightarrow> False
                           | Some sl \<Rightarrow>
                               if sl = [] then False
                               else (let fullSlug =
                                           (case parentCategory cat of
                                              Some p \<Rightarrow> ref_slug p @ ''/'' @ sl
                                            | None \<Rightarrow> sl)
                                     in toLowerCase fullSlug \<in> set lowerSettings))))))"

text \<open>
  The constants \<^verbatim>\<open>categorySettings\<close> and \<^verbatim>\<open>numericIds\<close> of \<^verbatim>\<open>isCategoryAllowed\<close> in
  part_001 and part_002, and \<^verbatim>\<open>allowedIds\<close> of the other two drafts.
\<close>

definition categorySettingsOf :: "string \<Rightarrow> string list" where
  "categorySettingsOf cats = filter (\<lambda>x. x \<noteq> []) (map trim (split_pipe cats))"

definition numericIdsOf :: "string list \<Rightarrow> int list" where
  "numericIdsOf categorySettings = List.map_filter parseInt categorySettings"

definition allowedIdsOf :: "string \<Rightarrow> int list" where
  "allowedIdsOf cats = List.map_filter (\<lambda>x. parseInt (trim x)) (split_pipe cats)"

text \<open>\<^verbatim>\<open>isCategoryAllowed\<close> of part_001.\<close>

definition isCategoryAllowed_pre :: "settings \<Rightarrow> site option \<Rightarrow> int \<Rightarrow> bool" where
  "isCategoryAllowed_pre s st categoryId =
     (case auto_vote_categories s of
        None \<Rightarrow> True
      | Some cats \<Rightarrow>
          if cats = [] then True
          else (let categorySettings = categorySettingsOf cats in
                if categorySettings = [] then True
                else (let numericIds = numericIdsOf categorySettings in
                      if numericIds \<noteq> [] \<and> categoryId \<in> set numericIds then True
                      else matchByName st categorySettings categoryId)))"

text \<open>
  \<^verbatim>\<open>isCategoryAllowed\<close> of part_002: the same decision, with the two reports through
  \<^verbatim>\<open>log\<close>.
\<close>

definition isCategoryAllowed :: "settings \<Rightarrow> site option \<Rightarrow> int \<Rightarrow> world \<Rightarrow> bool \<times> world" where
  "isCategoryAllowed s st categoryId w =
     (case auto_vote_categories s of
        None \<Rightarrow> (True, log s ''No category restriction configured, allowing all categories'' w)
      | Some cats \<Rightarrow>
          if cats = [] then
            (True, log s ''No category restriction configured, allowing all categories'' w)
          else (let categorySettings = categorySettingsOf cats in
                if categorySettings = [] then
                  (True, log s ''Empty category list after parsing, allowing all categories'' w)
                else (let numericIds = numericIdsOf categorySettings in
                      if numericIds \<noteq> [] \<and> categoryId \<in> set numericIds then (True, w)
                      else (matchByName st categorySettings categoryId, w))))"

text \<open>
  \<^verbatim>\<open>isCategoryAllowed\<close> of part_000: numeric ids only; entries that are not numbers are
  dropped, and a list without any number allows every category.
\<close>

definition isCategoryAllowed_ev :: "settings \<Rightarrow> int \<Rightarrow> bool" where
  "isCategoryAllowed_ev s categoryId =
     (case auto_vote_categories s of
        None \<Rightarrow> True
      | Some cats \<Rightarrow>
          if cats = [] then True
          else (let allowedIds = allowedIdsOf cats in
                if allowedIds = [] then True
                else categoryId \<in> set allowedIds))"


subsection \<open>The category policy over the host's own string methods\<close>









subsection \<open>Closure state and events\<close>

text \<open>
  The state the initializer's closures hold. Every draft has the logged-in user, the set
  of topics already attempted, the pending 500 ms timers of the navigation handler and the
  \<^verbatim>\<open>castVote\<close> calls suspended at \<^verbatim>\<open>await ajax(...)\<close> (topic id and source). part_001
  adds \<^verbatim>\<open>preVotedTopics\<close>, its 50 ms timers and the requests of its \<^verbatim>\<open>save\<close> hook that
  are still in flight; the named draft adds the 100 ms timers of its AJAX interceptor,
  each with the topic id it captured. A draft leaves the fields of the others as they
  were initialised.
\<close>

record comp =
  currentUser :: user
  autoVotedTopics :: "int set"
  preVotedTopics :: "int set"
  timers :: nat
  reflectTimers :: nat
  interceptTimers :: "int list"
  awaiting :: "(int \<times> string) list"
  preVotes :: "int list"

definition newComp :: "user \<Rightarrow> comp" where
  "newComp u =
     \<lparr>currentUser = u, autoVotedTopics = {}, preVotedTopics = {}, timers = 0,
      reflectTimers = 0, interceptTimers = [], awaiting = [], preVotes = []\<rparr>"

text \<open>The payload of an application event, and the post in the response to a \<^verbatim>\<open>POST\<close>.\<close>

record app_data =
  data_id :: "int option"
  data_topic_id :: "int option"
  data_category_id :: int

record post =
  post_topic_id :: "int option"
  post_number :: "int option"

text \<open>
  A session is a sequence of events:
  \<^item> \<open>PageChange url\<close>: the host calls the \<^verbatim>\<open>onPageChange\<close> handlers;
  \<^item> \<open>TimerFired\<close>, \<open>ReflectTimerFired\<close>, \<open>InterceptTimerFired\<close>: a pending timer of 500 ms
    (all drafts), 50 ms (part_001) or 100 ms (named draft) fires; without a pending
    timer of its kind the event is void;
  \<^item> \<open>VoteSettled t res\<close>: the request of a suspended \<^verbatim>\<open>castVote\<close> call for topic \<open>t\<close>
    settles; \<open>PreVoteSettled t res\<close>: a request of part_001's \<^verbatim>\<open>save\<close> hook settles;
  \<^item> \<open>AppEvent name data\<close>: the host triggers an application event;
  \<^item> \<open>ComposerSaved creatingTopic categoryId result\<close>: a save of the composer has
    completed; \<open>result\<close> is \<^verbatim>\<open>result.responseJson.post.topic_id\<close> where the response has it;
  \<^item> \<open>AjaxDone method url resp\<close>: a \<^verbatim>\<open>$.ajax\<close> call has succeeded; \<open>resp\<close> is the
    \<^verbatim>\<open>post\<close> of its response;
  \<^item> \<open>HostModel m\<close>, \<open>HostRender d\<close>: the host loads another topic model, or renders the
    page anew.
\<close>

datatype event =
    PageChange string
  | TimerFired
  | ReflectTimerFired
  | InterceptTimerFired
  | VoteSettled int ajax_result
  | PreVoteSettled int ajax_result
  | AppEvent string "app_data option"
  | ComposerSaved bool int "int option"
  | AjaxDone string string "post option"
  | HostModel "topic option"
  | HostRender dom

definition hostStep :: "event \<Rightarrow> world \<Rightarrow> world" where
  "hostStep ev w =
     (case ev of
        HostModel m \<Rightarrow> w\<lparr>model := m\<rparr>
      | HostRender d \<Rightarrow> w\<lparr>page := d\<rparr>
      | _ \<Rightarrow> w)"

text \<open>A value used as a condition: a number counts as true when present and not zero.\<close>

definition truthy :: "int option \<Rightarrow> bool" where
  "truthy x = (case x of None \<Rightarrow> False | Some v \<Rightarrow> v \<noteq> 0)"

subsection \<open>part_002 (v1.4): the vote attempt and the navigation trigger\<close>

text \<open>
  \<^verbatim>\<open>castVote\<close> up to its \<^verbatim>\<open>await\<close>. The second component is \<open>Some b\<close> when the call
  has returned \<open>b\<close> without sending anything, \<open>None\<close> when the request is out and the call
  is suspended.
\<close>

definition castVote ::
  "settings \<Rightarrow> int \<Rightarrow> string \<Rightarrow> world \<times> comp \<Rightarrow> (world \<times> comp) \<times> bool option" where
  "castVote s topicId source wc =
     (case wc of (w, c) \<Rightarrow>
        if \<not> auto_vote_enabled s then ((log s ''Auto-vote is disabled'' w, c), Some False)
        else if topicId \<in> autoVotedTopics c then
          ((log s (''Already attempted auto-vote for topic: '' @ stringOfInt topicId) w, c),
           Some False)
        else
          (let c1 = c\<lparr>autoVotedTopics := insert topicId (autoVotedTopics c)\<rparr>;
               w1 = log s (''Casting vote for topic '' @ stringOfInt topicId
                           @ '' (source: '' @ source @ '')'') w;
               w2 = w1\<lparr>outbox := outbox w1 @ [topicId]\<rparr>
           in ((w2, c1\<lparr>awaiting := awaiting c1 @ [(topicId, source)]\<rparr>), None)))"

definition newVoteCount :: "response \<Rightarrow> topic option \<Rightarrow> int" where
  "newVoteCount r tp =
     (case resp_vote_count r of
        Some v \<Rightarrow> v
      | None \<Rightarrow>
          (case tp of
             None \<Rightarrow> 0
           | Some t \<Rightarrow> (case vote_count t of None \<Rightarrow> 0 | Some v \<Rightarrow> v)) + 1)"

definition updateVotingState :: "response \<Rightarrow> user \<Rightarrow> user" where
  "updateVotingState r u =
     (let u1 = (case resp_can_vote r of
                  None \<Rightarrow> u
                | Some cv \<Rightarrow> u\<lparr>votes_exceeded := Some (\<not> cv)\<rparr>);
          u2 = (case resp_votes_left r of
                  None \<Rightarrow> u1
                | Some v \<Rightarrow> u1\<lparr>votes_left := Some v\<rparr>)
      in u2)"

text \<open>
  \<^verbatim>\<open>castVote\<close> after its \<^verbatim>\<open>await\<close>, given how the request settled; the second component
  is the value the call returns. A resolved request without a body makes
  \<^verbatim>\<open>response.vote_count\<close> throw inside the inner \<^verbatim>\<open>try\<close>, whose \<^verbatim>\<open>catch\<close> updates the
  page with the count 1.
\<close>

definition castVoteResume ::
  "settings \<Rightarrow> int \<Rightarrow> string \<Rightarrow> ajax_result \<Rightarrow> world \<times> comp \<Rightarrow> (world \<times> comp) \<times> bool" where
  "castVoteResume s topicId source res wc =
     (case wc of (w, c) \<Rightarrow>
        (case res of
           Resolved body \<Rightarrow>
             (let w1 = log s (''Vote cast successfully for topic: '' @ stringOfInt topicId) w in
              case body of
                None \<Rightarrow> ((updateVoteUI s 1 (log s ''Error updating UI:'' w1), c), True)
              | Some r \<Rightarrow>
                  (let tp = model w1;
                       n = newVoteCount r tp;
                       wc2 = (case tp of
                                None \<Rightarrow> (w1, c)
                              | Some t \<Rightarrow>
                                  if topic_id t = topicId then
                                    (log s (''Updated topic model: vote_count = '' @ stringOfInt n
                                            @ '' user_voted = true'')
                                       (w1\<lparr>model := Some (t\<lparr>vote_count := Some n,
                                                             user_voted := True\<rparr>)\<rparr>),
                                     c\<lparr>currentUser := updateVotingState r (currentUser c)\<rparr>)
                                  else (w1, c))
                   in ((updateVoteUI s n (fst wc2), snd wc2), True)))
         | Rejected status \<Rightarrow>
             if status = Some 422 then
               ((log s (''Could not vote (already voted or voting not enabled): ''
                        @ stringOfInt topicId) w, c), False)
             else ((log s ''Error casting vote:'' w, c), False)))"

text \<open>The handler of \<^verbatim>\<open>api.onPageChange\<close>: on a topic URL it only starts the timer.\<close>

definition onPageChange :: "string \<Rightarrow> world \<times> comp \<Rightarrow> world \<times> comp" where
  "onPageChange url wc =
     (case wc of (w, c) \<Rightarrow>
        (case topicMatch url of
           None \<Rightarrow> (w, c)
         | Some _ \<Rightarrow> (w, c\<lparr>timers := Suc (timers c)\<rparr>)))"

text \<open>The callback of the timer, 500 ms later.\<close>

definition topicCheck :: "settings \<Rightarrow> site option \<Rightarrow> world \<times> comp \<Rightarrow> world \<times> comp" where
  "topicCheck s st wc =
     (case wc of (w, c) \<Rightarrow>
        (case model w of
           None \<Rightarrow> (w, c)
         | Some t \<Rightarrow>
             if user_id t = usr_id (currentUser c) \<and> can_vote t \<and> \<not> user_voted t then
               (case isCategoryAllowed s st (category_id t) w of
                  (allowed, w1) \<Rightarrow>
                    if allowed then
                      fst (castVote s (topic_id t) ''onPageChange''
                             (log s (''Found unvoted own topic on page load: ''
                                     @ stringOfInt (topic_id t)) w1, c))
                    else (w1, c))
             else (w, c)))"

text \<open>
  Delivery of one event to the handlers part_002 registers; an event without a handler
  of this draft changes nothing. A settled request resumes the suspended call for its
  topic.
\<close>

definition handle :: "settings \<Rightarrow> site option \<Rightarrow> event \<Rightarrow> world \<times> comp \<Rightarrow> world \<times> comp" where
  "handle s st ev wc =
     (case wc of (w, c) \<Rightarrow>
        (case ev of
           PageChange url \<Rightarrow> onPageChange url (w, c)
         | TimerFired \<Rightarrow>
             if timers c = 0 then (w, c)
             else topicCheck s st (w, c\<lparr>timers := timers c - 1\<rparr>)
         | VoteSettled t res \<Rightarrow>
             (case find (\<lambda>p. fst p = t) (awaiting c) of
                None \<Rightarrow> (w, c)
              | Some p \<Rightarrow>
                  fst (castVoteResume s t (snd p) res
                         (w, c\<lparr>awaiting := remove1 p (awaiting c)\<rparr>)))
         | _ \<Rightarrow> (w, c)))"

text \<open>
  The initializer: without a logged-in user it returns at once, and no closure state and
  no handler exists (\<open>None\<close>).
\<close>

definition initializer :: "settings \<Rightarrow> user option \<Rightarrow> world \<Rightarrow> world \<times> comp option" where
  "initializer s cu w =
     (case cu of
        None \<Rightarrow> (w, None)
      | Some u \<Rightarrow>
          (log s (''Initializing auto-vote component for user: '' @ username u) w,
           Some (newComp u)))"

text \<open>
  One step of a session, for a draft with the delivery function \<open>h\<close>: the host's own
  changes happen in any case, the delivery only when the initializer registered handlers.
\<close>

definition step ::
  "(event \<Rightarrow> world \<times> comp \<Rightarrow> world \<times> comp) \<Rightarrow> world \<times> comp option \<Rightarrow> event
     \<Rightarrow> world \<times> comp option" where
  "step h ss ev =
     (case ss of (w, co) \<Rightarrow>
        (case co of
           None \<Rightarrow> (hostStep ev w, None)
         | Some c \<Rightarrow> (case h ev (hostStep ev w, c) of (w', c') \<Rightarrow> (w', Some c'))))"

definition run ::
  "(event \<Rightarrow> world \<times> comp \<Rightarrow> world \<times> comp) \<Rightarrow> event list \<Rightarrow> world \<times> comp option
     \<Rightarrow> world \<times> comp option" where
  "run h evs ss = foldl (step h) ss evs"

subsection \<open>part_001: the vote from the composer's save\<close>

text \<open>\<^verbatim>\<open>castVote\<close> of part_001, up to its \<^verbatim>\<open>await\<close>; it has no source argument.\<close>

definition castVote_pre ::
  "settings \<Rightarrow> int \<Rightarrow> world \<times> comp \<Rightarrow> (world \<times> comp) \<times> bool option" where
  "castVote_pre s topicId wc =
     (case wc of (w, c) \<Rightarrow>
        if \<not> auto_vote_enabled s then ((w, c), Some False)
        else if topicId \<in> autoVotedTopics c then ((w, c), Some False)
        else
          ((w\<lparr>outbox := outbox w @ [topicId]\<rparr>,
            c\<lparr>autoVotedTopics := insert topicId (autoVotedTopics c),
              awaiting := awaiting c @ [(topicId, [])]\<rparr>), None))"

text \<open>
  After the \<^verbatim>\<open>await\<close>. There is one \<^verbatim>\<open>try\<close> only: a resolved request without a body
  throws at \<^verbatim>\<open>response.vote_count\<close> and the call returns false.
\<close>

definition castVoteResume_pre ::
  "int \<Rightarrow> ajax_result \<Rightarrow> world \<times> comp \<Rightarrow> (world \<times> comp) \<times> bool" where
  "castVoteResume_pre topicId res wc =
     (case wc of (w, c) \<Rightarrow>
        (case res of
           Resolved body \<Rightarrow>
             (case body of
                None \<Rightarrow> ((w, c), False)
              | Some r \<Rightarrow>
                  (let tp = model w;
                       n = newVoteCount r tp;
                       wc2 = (case tp of
                                None \<Rightarrow> (w, c)
                              | Some t \<Rightarrow>
                                  if topic_id t = topicId then
                                    (w\<lparr>model := Some (t\<lparr>vote_count := Some n,
                                                          user_voted := True\<rparr>)\<rparr>,
                                     c\<lparr>currentUser := updateVotingState r (currentUser c)\<rparr>)
                                  else (w, c))
                   in (((fst wc2)\<lparr>page := updateVoteUI_pre n (page (fst wc2))\<rparr>, snd wc2),
                       True)))
         | Rejected status \<Rightarrow> ((w, c), False)))"

text \<open>
  The \<^verbatim>\<open>save\<close> override of the composer, once the save has completed: \<open>result\<close> is the
  topic id of the post in the response, if there is one. The request is sent with
  \<^verbatim>\<open>ajax\<close> directly.
\<close>

definition composerSave_pre ::
  "settings \<Rightarrow> site option \<Rightarrow> bool \<Rightarrow> int \<Rightarrow> int option \<Rightarrow> world \<times> comp \<Rightarrow> world \<times> comp" where
  "composerSave_pre s st isNewTopic categoryId result wc =
     (case wc of (w, c) \<Rightarrow>
        if isNewTopic \<and> auto_vote_enabled s \<and> isCategoryAllowed_pre s st categoryId then
          (case result of
             None \<Rightarrow> (w, c)
           | Some topicId \<Rightarrow>
               (w\<lparr>outbox := outbox w @ [topicId]\<rparr>,
                c\<lparr>preVotedTopics := insert topicId (preVotedTopics c),
                  preVotes := preVotes c @ [topicId]\<rparr>))
        else (w, c))"

text \<open>The \<^verbatim>\<open>catch\<close> of that request takes the topic out of \<^verbatim>\<open>preVotedTopics\<close> again.\<close>

definition preVoteSettled :: "int \<Rightarrow> ajax_result \<Rightarrow> world \<times> comp \<Rightarrow> world \<times> comp" where
  "preVoteSettled topicId res wc =
     (case wc of (w, c) \<Rightarrow>
        if topicId \<in> set (preVotes c) then
          (let c1 = c\<lparr>preVotes := remove1 topicId (preVotes c)\<rparr> in
           case res of
             Resolved _ \<Rightarrow> (w, c1)
           | Rejected _ \<Rightarrow> (w, c1\<lparr>preVotedTopics := preVotedTopics c1 - {topicId}\<rparr>))
        else (w, c))"

definition onPageChange_pre :: "settings \<Rightarrow> string \<Rightarrow> world \<times> comp \<Rightarrow> world \<times> comp" where
  "onPageChange_pre s url wc =
     (case wc of (w, c) \<Rightarrow>
        (case topicMatch url of
           None \<Rightarrow> (w, c)
         | Some ds \<Rightarrow>
             (let topicIdFromUrl = parseInt ds;
                  preVoted = (case topicIdFromUrl of
                                None \<Rightarrow> False
                              | Some k \<Rightarrow> k \<in> preVotedTopics c)
              in if preVoted then
                   (case topicIdFromUrl of
                      None \<Rightarrow> (w, c)
                    | Some k \<Rightarrow>
                        (w, c\<lparr>preVotedTopics := preVotedTopics c - {k},
                              autoVotedTopics := insert k (autoVotedTopics c),
                              reflectTimers := Suc (reflectTimers c)\<rparr>))
                 else if \<not> auto_vote_on_visit s then (w, c)
                 else (w, c\<lparr>timers := Suc (timers c)\<rparr>))))"

definition topicCheck_pre :: "settings \<Rightarrow> site option \<Rightarrow> world \<times> comp \<Rightarrow> world \<times> comp" where
  "topicCheck_pre s st wc =
     (case wc of (w, c) \<Rightarrow>
        (case model w of
           None \<Rightarrow> (w, c)
         | Some t \<Rightarrow>
             if user_id t = usr_id (currentUser c) \<and> can_vote t \<and> \<not> user_voted t
                \<and> isCategoryAllowed_pre s st (category_id t)
             then fst (castVote_pre s (topic_id t) (w, c))
             else (w, c)))"

definition handle_pre ::
  "settings \<Rightarrow> site option \<Rightarrow> event \<Rightarrow> world \<times> comp \<Rightarrow> world \<times> comp" where
  "handle_pre s st ev wc =
     (case wc of (w, c) \<Rightarrow>
        (case ev of
           PageChange url \<Rightarrow> onPageChange_pre s url (w, c)
         | TimerFired \<Rightarrow>
             if timers c = 0 then (w, c)
             else topicCheck_pre s st (w, c\<lparr>timers := timers c - 1\<rparr>)
         | ReflectTimerFired \<Rightarrow>
             if reflectTimers c = 0 then (w, c)
             else (w\<lparr>page := updateVoteUI_pre 1 (page w)\<rparr>,
                   c\<lparr>reflectTimers := reflectTimers c - 1\<rparr>)
         | VoteSettled t res \<Rightarrow>
             (case find (\<lambda>p. fst p = t) (awaiting c) of
                None \<Rightarrow> (w, c)
              | Some p \<Rightarrow>
                  fst (castVoteResume_pre t res (w, c\<lparr>awaiting := remove1 p (awaiting c)\<rparr>)))
         | PreVoteSettled t res \<Rightarrow> preVoteSettled t res (w, c)
         | ComposerSaved isNewTopic categoryId result \<Rightarrow>
             composerSave_pre s st isNewTopic categoryId result (w, c)
         | _ \<Rightarrow> (w, c)))"

definition initializer_pre :: "user option \<Rightarrow> world \<Rightarrow> world \<times> comp option" where
  "initializer_pre cu w =
     (case cu of
        None \<Rightarrow> (w, None)
      | Some u \<Rightarrow> (w, Some (newComp u)))"

subsection \<open>part_000: the topic-created event and the navigation fallback\<close>

text \<open>
  Up to its \<^verbatim>\<open>await\<close>, \<^verbatim>\<open>castVote\<close> of part_000 is \<^verbatim>\<open>castVote\<close> of part_002 line by line,
  and so are the initializer and the page-change handler; \<open>castVote\<close>, \<open>initializer\<close> and
  \<open>onPageChange\<close> stand for both. After the \<^verbatim>\<open>await\<close> part_000 only reports; a failure
  other than 422 goes to \<^verbatim>\<open>console.error\<close>, whatever the debug setting.
\<close>

definition castVoteResume_ev ::
  "settings \<Rightarrow> int \<Rightarrow> ajax_result \<Rightarrow> world \<times> comp \<Rightarrow> (world \<times> comp) \<times> bool" where
  "castVoteResume_ev s topicId res wc =
     (case wc of (w, c) \<Rightarrow>
        (case res of
           Resolved _ \<Rightarrow>
             ((log s (''Vote cast successfully for topic: '' @ stringOfInt topicId) w, c), True)
         | Rejected status \<Rightarrow>
             if status = Some 422 then
               ((log s (''Could not vote (already voted or voting not enabled): ''
                        @ stringOfInt topicId) w, c), False)
             else
               ((w\<lparr>console := console w
                      @ [ConsoleError ''[Auto Vote Own Topic] Error casting vote:'']\<rparr>, c),
                False)))"

definition topicCreated_ev ::
  "settings \<Rightarrow> app_data option \<Rightarrow> world \<times> comp \<Rightarrow> world \<times> comp" where
  "topicCreated_ev s data wc =
     (case wc of (w, c) \<Rightarrow>
        (let w1 = log s ''topic:created event fired:'' w in
         case data of
           None \<Rightarrow> (w1, c)
         | Some d \<Rightarrow>
             if truthy (data_id d) then
               (case data_id d of
                  None \<Rightarrow> (w1, c)
                | Some topicId \<Rightarrow>
                    (let w2 = log s ''New topic created:'' w1 in
                     if \<not> isCategoryAllowed_ev s (data_category_id d) then
                       (log s (''Category not in allowed list: ''
                               @ stringOfInt (data_category_id d)) w2, c)
                     else fst (castVote s topicId ''topic:created'' (w2, c))))
             else (w1, c)))"

definition topicCheck_ev :: "settings \<Rightarrow> world \<times> comp \<Rightarrow> world \<times> comp" where
  "topicCheck_ev s wc =
     (case wc of (w, c) \<Rightarrow>
        (case model w of
           None \<Rightarrow> (w, c)
         | Some t \<Rightarrow>
             if user_id t = usr_id (currentUser c) \<and> can_vote t \<and> \<not> user_voted t
                \<and> isCategoryAllowed_ev s (category_id t)
             then fst (castVote s (topic_id t) ''onPageChange''
                         (log s (''Found unvoted own topic on page load: ''
                                 @ stringOfInt (topic_id t)) w, c))
             else (w, c)))"

definition handle_ev :: "settings \<Rightarrow> event \<Rightarrow> world \<times> comp \<Rightarrow> world \<times> comp" where
  "handle_ev s ev wc =
     (case wc of (w, c) \<Rightarrow>
        (case ev of
           PageChange url \<Rightarrow> onPageChange url (w, c)
         | TimerFired \<Rightarrow>
             if timers c = 0 then (w, c)
             else topicCheck_ev s (w, c\<lparr>timers := timers c - 1\<rparr>)
         | VoteSettled t res \<Rightarrow>
             (case find (\<lambda>p. fst p = t) (awaiting c) of
                None \<Rightarrow> (w, c)
              | Some p \<Rightarrow>
                  fst (castVoteResume_ev s t res (w, c\<lparr>awaiting := remove1 p (awaiting c)\<rparr>)))
         | AppEvent eventName data \<Rightarrow>
             if eventName = ''topic:created'' then topicCreated_ev s data (w, c) else (w, c)
         | _ \<Rightarrow> (w, c)))"

subsection \<open>The named draft: logging forced on, four triggers\<close>

definition DEBUG :: bool where
  "DEBUG = True"

definition log_dbg :: "settings \<Rightarrow> string \<Rightarrow> world \<Rightarrow> world" where
  "log_dbg s msg w =
     (if DEBUG \<or> auto_vote_debug_mode s then w\<lparr>console := console w @ [ConsoleLog msg]\<rparr>
      else w)"

definition showBool :: "bool \<Rightarrow> string" where
  "showBool b = (if b then ''true'' else ''false'')"

definition initializer_dbg :: "settings \<Rightarrow> user option \<Rightarrow> world \<Rightarrow> world \<times> comp option" where
  "initializer_dbg s cu w =
     (let w1 = log_dbg s ''=== INITIALIZING AUTO VOTE COMPONENT ==='' w;
          w2 = log_dbg s (''Settings: enabled: '' @ showBool (auto_vote_enabled s)
                          @ '' categories: ''
                          @ (case auto_vote_categories s of None \<Rightarrow> ''undefined'' | Some x \<Rightarrow> x)
                          @ '' debug: '' @ showBool (auto_vote_debug_mode s)) w1
      in case cu of
           None \<Rightarrow>
             (log_dbg s ''Exiting - no user logged in''
                (log_dbg s ''Current user: NOT LOGGED IN'' w2), None)
         | Some u \<Rightarrow>
             (log_dbg s ''=== AUTO VOTE COMPONENT FULLY INITIALIZED ===''
                (log_dbg s ''Setting up AJAX interceptor...''
                   (log_dbg s ''Setting up composer model modification...''
                      (log_dbg s (''Current user: '' @ username u) w2))),
              Some (newComp u)))"

definition isCategoryAllowed_dbg :: "settings \<Rightarrow> int \<Rightarrow> world \<Rightarrow> bool \<times> world" where
  "isCategoryAllowed_dbg s categoryId w =
     (case auto_vote_categories s of
        None \<Rightarrow> (True, log_dbg s ''No category restrictions - allowing all'' w)
      | Some cats \<Rightarrow>
          if cats = [] then (True, log_dbg s ''No category restrictions - allowing all'' w)
          else (let allowedIds = allowedIdsOf cats in
                if allowedIds = [] then
                  (True, log_dbg s ''No valid category IDs parsed - allowing all'' w)
                else (categoryId \<in> set allowedIds, log_dbg s ''Category check:'' w)))"


text \<open>\<^verbatim>\<open>castVote\<close> of the named draft does not look at \<^verbatim>\<open>auto_vote_enabled\<close>; its callers do.\<close>

definition castVote_dbg ::
  "settings \<Rightarrow> int \<Rightarrow> string \<Rightarrow> world \<times> comp \<Rightarrow> (world \<times> comp) \<times> bool option" where
  "castVote_dbg s topicId source wc =
     (case wc of (w, c) \<Rightarrow>
        (let w1 = log_dbg s (''castVote called from '' @ source @ '' for topic: ''
                             @ stringOfInt topicId) w in
         if topicId \<in> autoVotedTopics c then
           ((log_dbg s (''Already attempted auto-vote for topic: '' @ stringOfInt topicId) w1, c),
            Some False)
         else
           (let c1 = c\<lparr>autoVotedTopics := insert topicId (autoVotedTopics c)\<rparr>;
                w2 = log_dbg s (''Making API call to /voting/vote with topic_id: ''
                                @ stringOfInt topicId) w1;
                w3 = w2\<lparr>outbox := outbox w2 @ [topicId]\<rparr>
            in ((w3, c1\<lparr>awaiting := awaiting c1 @ [(topicId, source)]\<rparr>), None))))"

definition castVoteResume_dbg ::
  "settings \<Rightarrow> int \<Rightarrow> ajax_result \<Rightarrow> world \<times> comp \<Rightarrow> (world \<times> comp) \<times> bool" where
  "castVoteResume_dbg s topicId res wc =
     (case wc of (w, c) \<Rightarrow>
        (case res of
           Resolved _ \<Rightarrow>
             ((log_dbg s (''SUCCESS! Vote cast for topic: '' @ stringOfInt topicId)
                 (log_dbg s ''Vote API response:'' w), c), True)
         | Rejected status \<Rightarrow>
             (let w1 = log_dbg s ''Vote API error:'' w in
              if status = Some 422 then
                ((log_dbg s ''Could not vote (may already be voted or not allowed)'' w1, c),
                 False)
              else
                ((w1\<lparr>console := console w1
                        @ [ConsoleError ''[Auto Vote Own Topic] Error casting vote:'']\<rparr>, c),
                 False))))"

definition checkAndVote_dbg ::
  "settings \<Rightarrow> topic option \<Rightarrow> string \<Rightarrow> world \<times> comp \<Rightarrow> world \<times> comp" where
  "checkAndVote_dbg s tp source wc =
     (case wc of (w, c) \<Rightarrow>
        (let w1 = log_dbg s (''checkAndVote called from '' @ source) w in
         if \<not> auto_vote_enabled s then (log_dbg s ''Auto-vote is disabled in settings'' w1, c)
         else
           (case tp of
              None \<Rightarrow> (log_dbg s ''No topic model available'' w1, c)
            | Some t \<Rightarrow>
                if topic_id t \<in> autoVotedTopics c then
                  (log_dbg s (''Already attempted auto-vote for topic: ''
                              @ stringOfInt (topic_id t)) w1, c)
                else
                  (let w2 = log_dbg s ''Topic data:'' w1 in
                   if user_id t \<noteq> usr_id (currentUser c) then
                     (log_dbg s ''SKIP: User is not the topic creator'' w2, c)
                   else if \<not> can_vote t then
                     (log_dbg s ''SKIP: Voting not enabled for this topic (can_vote=false)'' w2, c)
                   else if user_voted t then
                     (log_dbg s ''SKIP: User has already voted on this topic'' w2, c)
                   else
                     (case isCategoryAllowed_dbg s (category_id t) w2 of
                        (allowed, w3) \<Rightarrow>
                          if \<not> allowed then
                            (log_dbg s ''SKIP: Category not in allowed list'' w3, c)
                          else
                            fst (castVote_dbg s (topic_id t) source
                                   (log_dbg s ''All checks passed! Casting vote...'' w3, c)))))))"

definition onPageChange_dbg :: "settings \<Rightarrow> string \<Rightarrow> world \<times> comp \<Rightarrow> world \<times> comp" where
  "onPageChange_dbg s url wc =
     (case wc of (w, c) \<Rightarrow>
        (let w1 = log_dbg s (''onPageChange fired: '' @ url) w in
         case topicMatch url of
           None \<Rightarrow> (w1, c)
         | Some ds \<Rightarrow>
             (log_dbg s (''On topic page, topic ID from URL: '' @ ds) w1,
              c\<lparr>timers := Suc (timers c)\<rparr>)))"

definition topicCheck_dbg :: "settings \<Rightarrow> world \<times> comp \<Rightarrow> world \<times> comp" where
  "topicCheck_dbg s wc =
     (case wc of (w, c) \<Rightarrow>
        (case model w of
           None \<Rightarrow> (log_dbg s ''Topic controller model: NOT FOUND'' w, c)
         | Some t \<Rightarrow>
             checkAndVote_dbg s (Some t) ''onPageChange''
               (log_dbg s ''Topic controller model: found'' w, c)))"

definition eventsToWatch :: "string list" where
  "eventsToWatch =
     [''composer:created-post'', ''composer:saved'', ''composer:closed'', ''topic:created'',
      ''post:created'', ''page:topic-loaded'']"

definition appEvent_dbg ::
  "settings \<Rightarrow> string \<Rightarrow> app_data option \<Rightarrow> world \<times> comp \<Rightarrow> world \<times> comp" where
  "appEvent_dbg s eventName data wc =
     (case wc of (w, c) \<Rightarrow>
        (let w1 = log_dbg s (''AppEvent '' @ [CHR 0x22] @ eventName @ [CHR 0x22] @ '' fired:'') w in
         case data of
           None \<Rightarrow> (w1, c)
         | Some d \<Rightarrow>
             (case (if truthy (data_topic_id d) then data_topic_id d
                    else if truthy (data_id d) then data_id d else None) of
                None \<Rightarrow> (w1, c)
              | Some topicId \<Rightarrow>
                  (let w2 = log_dbg s (''Event has topic ID: '' @ stringOfInt topicId
                                       @ '', attempting vote...'') w1 in
                   if auto_vote_enabled s then
                     fst (castVote_dbg s topicId (''appEvent:'' @ eventName) (w2, c))
                   else (w2, c)))))"

definition composerAfterSave_dbg ::
  "settings \<Rightarrow> bool \<Rightarrow> int \<Rightarrow> int option \<Rightarrow> world \<times> comp \<Rightarrow> world \<times> comp" where
  "composerAfterSave_dbg s creatingTopic categoryId result wc =
     (case wc of (w, c) \<Rightarrow>
        (let w1 = log_dbg s ''result?.responseJson?.post:''
                    (log_dbg s ''result?.responseJson:''
                       (log_dbg s ''result:''
                          (log_dbg s (''this.creatingTopic: '' @ showBool creatingTopic)
                             (log_dbg s ''=== COMPOSER afterSave CALLED ==='' w)))) in
         if creatingTopic then
           (let w2 = log_dbg s ''Extracted data:''
                       (log_dbg s ''This IS a new topic creation'' w1) in
            if \<not> truthy result then
              (log_dbg s ''ERROR: Could not extract topic_id from result'' w2, c)
            else
              (case result of
                 None \<Rightarrow> (w2, c)
               | Some topicId \<Rightarrow>
                   if \<not> auto_vote_enabled s then (log_dbg s ''Auto-vote is disabled'' w2, c)
                   else
                     (case isCategoryAllowed_dbg s categoryId w2 of
                        (allowed, w3) \<Rightarrow>
                          if \<not> allowed then (log_dbg s ''Category not allowed'' w3, c)
                          else
                            fst (castVote_dbg s topicId ''composer:afterSave''
                                   (log_dbg s ''Calling castVote from composer afterSave...'' w3,
                                    c)))))
         else (log_dbg s ''This is NOT a new topic (probably a reply)'' w1, c)))"

definition ajaxDone_dbg ::
  "settings \<Rightarrow> string \<Rightarrow> string \<Rightarrow> post option \<Rightarrow> world \<times> comp \<Rightarrow> world \<times> comp" where
  "ajaxDone_dbg s method url resp wc =
     (case wc of (w, c) \<Rightarrow>
        if method = ''POST'' \<and> includes_str url ''/posts'' then
          (let w1 = log_dbg s ''Response:'' (log_dbg s ''=== AJAX POST to /posts detected ==='' w) in
           case resp of
             None \<Rightarrow> (w1, c)
           | Some p \<Rightarrow>
               if truthy (post_topic_id p) \<and> post_number p = Some 1 then
                 (case post_topic_id p of
                    None \<Rightarrow> (w1, c)
                  | Some topicId \<Rightarrow>
                      (let w2 = log_dbg s (''New topic detected from AJAX! Topic ID: ''
                                           @ stringOfInt topicId) w1 in
                       if auto_vote_enabled s then
                         (w2, c\<lparr>interceptTimers := interceptTimers c @ [topicId]\<rparr>)
                       else (w2, c)))
               else (w1, c))
        else (w, c))"

definition handle_dbg :: "settings \<Rightarrow> event \<Rightarrow> world \<times> comp \<Rightarrow> world \<times> comp" where
  "handle_dbg s ev wc =
     (case wc of (w, c) \<Rightarrow>
        (case ev of
           PageChange url \<Rightarrow> onPageChange_dbg s url (w, c)
         | TimerFired \<Rightarrow>
             if timers c = 0 then (w, c)
             else topicCheck_dbg s (w, c\<lparr>timers := timers c - 1\<rparr>)
         | InterceptTimerFired \<Rightarrow>
             (case interceptTimers c of
                [] \<Rightarrow> (w, c)
              | t # ts \<Rightarrow> fst (castVote_dbg s t ''ajax:interceptor'' (w, c\<lparr>interceptTimers := ts\<rparr>)))
         | VoteSettled t res \<Rightarrow>
             (case find (\<lambda>p. fst p = t) (awaiting c) of
                None \<Rightarrow> (w, c)
              | Some p \<Rightarrow>
                  fst (castVoteResume_dbg s t res (w, c\<lparr>awaiting := remove1 p (awaiting c)\<rparr>)))
         | AppEvent eventName data \<Rightarrow>
             if eventName \<in> set eventsToWatch then appEvent_dbg s eventName data (w, c)
             else (w, c)
         | ComposerSaved creatingTopic categoryId result \<Rightarrow>
             composerAfterSave_dbg s creatingTopic categoryId result (w, c)
         | AjaxDone method url resp \<Rightarrow> ajaxDone_dbg s method url resp (w, c)
         | _ \<Rightarrow> (w, c)))"

subsection \<open>The specification's words\<close>

text \<open>
  The decision \<^verbatim>\<open>shouldVote\<close> as the specification words it: the feature is enabled, the
  topic's creator is the acting user, the topic can be voted on, it is not voted on yet,
  and the category policy allows its category.
\<close>

definition shouldVote :: "bool \<Rightarrow> (int \<Rightarrow> bool) \<Rightarrow> topic \<Rightarrow> int \<Rightarrow> bool" where
  "shouldVote enabled policy t userId =
     (enabled \<and> user_id t = userId \<and> can_vote t \<and> \<not> user_voted t \<and> policy (category_id t))"


definition equalsIgnoringCase :: "string option \<Rightarrow> string \<Rightarrow> bool" where
  "equalsIgnoringCase x e =
     (case x of None \<Rightarrow> False | Some v \<Rightarrow> toLowerCase v = toLowerCase e)"






subsection \<open>Bookkeeping over sessions\<close>

text \<open>What the host alone does to the world over a sequence of events.\<close>

definition hostRun :: "event list \<Rightarrow> world \<Rightarrow> world" where
  "hostRun evs w = foldl (\<lambda>v ev. hostStep ev v) w evs"

text \<open>
  The number of vote requests the \<^verbatim>\<open>save\<close> hook of part_001 sends for topic \<open>t\<close> over a
  sequence of events: one for each completed save of a new topic that passes the hook's
  condition and whose response carries a post of topic \<open>t\<close>.
\<close>

definition hookSends :: "settings \<Rightarrow> site option \<Rightarrow> int \<Rightarrow> event \<Rightarrow> bool" where
  "hookSends s st t ev =
     (case ev of
        ComposerSaved isNewTopic categoryId result \<Rightarrow>
          isNewTopic \<and> auto_vote_enabled s \<and> isCategoryAllowed_pre s st categoryId
          \<and> result = Some t
      | _ \<Rightarrow> False)"

definition hookRequests :: "settings \<Rightarrow> site option \<Rightarrow> event list \<Rightarrow> int \<Rightarrow> nat" where
  "hookRequests s st evs t = length (filter (hookSends s st t) evs)"

text \<open>
  How many requests \<^verbatim>\<open>castVote\<close> can still send for topic \<open>t\<close>: one as long as \<open>t\<close> is not
  in \<^verbatim>\<open>autoVotedTopics\<close>, none afterwards.
\<close>

definition unspent :: "int \<Rightarrow> comp \<Rightarrow> nat" where
  "unspent t c = (if t \<in> autoVotedTopics c then 0 else 1)"

text \<open>The number of vote requests sent for topic \<open>t\<close> so far.\<close>

definition requestsFor :: "int \<Rightarrow> world \<Rightarrow> nat" where
  "requestsFor t w = count_list (outbox w) t"

text \<open>The same for a session; whether a session has attempted topic \<open>t\<close>.\<close>

definition sessionUnspent :: "int \<Rightarrow> world \<times> comp option \<Rightarrow> nat" where
  "sessionUnspent t ss = (case snd ss of None \<Rightarrow> 0 | Some c \<Rightarrow> unspent t c)"

definition attempted :: "int \<Rightarrow> world \<times> comp option \<Rightarrow> bool" where
  "attempted t ss = (case snd ss of None \<Rightarrow> False | Some c \<Rightarrow> t \<in> autoVotedTopics c)"

text \<open>A session state with the console blanked: everything but the diagnostic output.\<close>

definition mute :: "world \<Rightarrow> world" where
  "mute w = w\<lparr>console := []\<rparr>"

definition muteSession :: "world \<times> comp option \<Rightarrow> world \<times> comp option" where
  "muteSession ss = (mute (fst ss), snd ss)"

subsection \<open>Example data\<close>

definition exSettings :: "string option \<Rightarrow> settings" where
  "exSettings cats =
     \<lparr>auto_vote_enabled = True, auto_vote_categories = cats, auto_vote_debug_mode = False,
      auto_vote_on_visit = True\<rparr>"

definition exUser :: user where
  "exUser = \<lparr>usr_id = 42, username = ''ann'', votes_exceeded = None, votes_left = None\<rparr>"

definition exTopic :: topic where
  "exTopic =
     \<lparr>topic_id = 1234, user_id = 42, can_vote = True, user_voted = False, category_id = 3,
      vote_count = Some 0\<rparr>"

definition exPage :: dom where
  "exPage =
     \<lparr>voteCountEl = Some ''0'',
      voteButton = Some \<lparr>btn_classes = [''btn'', ''nonvote''], btn_span = Some ''Vote''\<rparr>,
      votingWrapper = Some [''voting-wrapper'', ''nonvote'']\<rparr>"

definition exWorld :: world where
  "exWorld = \<lparr>console = [], outbox = [], page = exPage, model = None\<rparr>"


definition exSite :: "site option" where
  "exSite =
     Some \<lparr>categories = Some
       [\<lparr>cat_id = 3, cat_slug = Some ''general'', cat_name = Some ''General'',
         parentCategory = None\<rparr>,
        \<lparr>cat_id = 7, cat_slug = Some ''support'', cat_name = Some ''Help Desk'',
         parentCategory = None\<rparr>,
        \<lparr>cat_id = 8, cat_slug = Some ''ideas'', cat_name = Some ''Ideas'',
         parentCategory = Some \<lparr>ref_slug = ''products''\<rparr>\<rparr>]\<rparr>"

text \<open>
  A session of part_001: a new topic 1234 is saved, the vote request of the \<^verbatim>\<open>save\<close> hook
  fails with status 500, then the user arrives on the topic's page and the timer fires.
\<close>

definition exSaveFails :: "event list" where
  "exSaveFails = [ComposerSaved True 3 (Some 1234), PreVoteSettled 1234 (Rejected (Some 500))]"

definition exArrival :: "event list" where
  "exArrival = [HostModel (Some exTopic), PageChange ''/t/some-slug/1234'', TimerFired]"

section \<open>Verification\<close>

subsection \<open>The vote UI update\<close>

lemma markVoted_idem: "markVoted (markVoted cs) = markVoted cs"
  by (auto simp: markVoted_def classList_add_def classList_remove_def)

lemma voted_has_vote: "includes_str (toLowerCase ''Voted'') ''vote''"
  by code_simp

lemma relabel_idem: "relabel (relabel sp) = relabel sp"
  using voted_has_vote by (cases sp) (auto simp: relabel_def)

lemma page_log [simp]: "page (log s m w) = page w"
  by (simp add: log_def)

lemma outbox_log [simp]: "outbox (log s m w) = outbox w"
  by (simp add: log_def)

lemma model_log [simp]: "model (log s m w) = model w"
  by (simp add: log_def)

lemma page_updateVoteUI: "page (updateVoteUI s n w) = updateVoteUI_pre n (page w)"
  by (cases "voteCountEl (page w)"; cases "voteButton (page w)"; cases "votingWrapper (page w)")
     (simp_all add: updateVoteUI_def updateVoteUI_pre_def)

lemma outbox_updateVoteUI [simp]: "outbox (updateVoteUI s n w) = outbox w"
  by (cases "voteCountEl (page w)"; cases "voteButton (page w)"; cases "votingWrapper (page w)")
     (simp_all add: updateVoteUI_def)

lemma model_updateVoteUI [simp]: "model (updateVoteUI s n w) = model w"
  by (cases "voteCountEl (page w)"; cases "voteButton (page w)"; cases "votingWrapper (page w)")
     (simp_all add: updateVoteUI_def)

lemma updateVoteUI_pre_idem: "updateVoteUI_pre n (updateVoteUI_pre n d) = updateVoteUI_pre n d"
  by (cases "voteCountEl d"; cases "voteButton d"; cases "votingWrapper d")
     (simp_all add: updateVoteUI_pre_def markVoted_idem relabel_idem)

lemma updateVoteUI_pre_skip:
  "updateVoteUI_pre n (d\<lparr>voteCountEl := None\<rparr>) = (updateVoteUI_pre n d)\<lparr>voteCountEl := None\<rparr>"
  "updateVoteUI_pre n (d\<lparr>voteButton := None\<rparr>) = (updateVoteUI_pre n d)\<lparr>voteButton := None\<rparr>"
  "updateVoteUI_pre n (d\<lparr>votingWrapper := None\<rparr>) = (updateVoteUI_pre n d)\<lparr>votingWrapper := None\<rparr>"
  by (cases "voteCountEl d"; cases "voteButton d"; cases "votingWrapper d";
      simp add: updateVoteUI_pre_def)+

text \<open>
  Claim C8. The vote UI update is idempotent: a second call with the same count leaves the
  page as the first call left it, in part_001 (\<open>updateVoteUI_pre\<close>) and in part_002
  (\<open>updateVoteUI\<close>, which besides the page only writes to the console). The update is a
  total function of the page with no failing branch: on a page with none of the three
  elements it changes nothing, and when one element is absent exactly the step for that
  element is skipped, the other two being carried out as on the full page.
\<close>

theorem updateVoteUI_idempotent:
  "updateVoteUI_pre n (updateVoteUI_pre n d) = updateVoteUI_pre n d
   \<and> page (updateVoteUI s n (updateVoteUI s n w)) = page (updateVoteUI s n w)
   \<and> page (updateVoteUI s n w) = updateVoteUI_pre n (page w)
   \<and> outbox (updateVoteUI s n w) = outbox w
   \<and> model (updateVoteUI s n w) = model w
   \<and> updateVoteUI_pre n \<lparr>voteCountEl = None, voteButton = None, votingWrapper = None\<rparr>
       = \<lparr>voteCountEl = None, voteButton = None, votingWrapper = None\<rparr>
   \<and> updateVoteUI_pre n (d\<lparr>voteCountEl := None\<rparr>) = (updateVoteUI_pre n d)\<lparr>voteCountEl := None\<rparr>
   \<and> updateVoteUI_pre n (d\<lparr>voteButton := None\<rparr>) = (updateVoteUI_pre n d)\<lparr>voteButton := None\<rparr>
   \<and> updateVoteUI_pre n (d\<lparr>votingWrapper := None\<rparr>)
       = (updateVoteUI_pre n d)\<lparr>votingWrapper := None\<rparr>"
proof (intro conjI)
  show "updateVoteUI_pre n (updateVoteUI_pre n d) = updateVoteUI_pre n d"
    by (rule updateVoteUI_pre_idem)
  show "page (updateVoteUI s n (updateVoteUI s n w)) = page (updateVoteUI s n w)"
    by (simp add: page_updateVoteUI updateVoteUI_pre_idem)
  show "page (updateVoteUI s n w) = updateVoteUI_pre n (page w)"
    by (rule page_updateVoteUI)
  show "updateVoteUI_pre n \<lparr>voteCountEl = None, voteButton = None, votingWrapper = None\<rparr>
          = \<lparr>voteCountEl = None, voteButton = None, votingWrapper = None\<rparr>"
    by (simp add: updateVoteUI_pre_def)
qed (simp_all add: updateVoteUI_pre_skip)

subsection \<open>The category policy\<close>

lemma toLowerCase_Nil [simp]:
  "toLowerCase [] = []" "(toLowerCase v = []) = (v = [])" "([] = toLowerCase v) = (v = [])"
  by (auto simp: toLowerCase_def)

lemma equalsIgnoringCase_None [simp]: "\<not> list_ex (equalsIgnoringCase None) entries"
  by (simp add: list_ex_iff equalsIgnoringCase_def)







lemma fst_isCategoryAllowed: "fst (isCategoryAllowed s st c w) = isCategoryAllowed_pre s st c"
  by (auto simp: isCategoryAllowed_def isCategoryAllowed_pre_def Let_def split: option.splits)

lemma parseInt_Nil [simp]: "parseInt [] = None"
  by (simp add: parseInt_def)



lemma fst_isCategoryAllowed_dbg: "fst (isCategoryAllowed_dbg s c w) = isCategoryAllowed_ev s c"
  by (auto simp: isCategoryAllowed_dbg_def isCategoryAllowed_ev_def Let_def split: option.splits)












text \<open>
  The string methods of this theory on code units beyond ASCII: the capital E with acute
  folds to the small one, the multiplication sign and the sharp s stay, and a no-break
  space is skipped by \<^verbatim>\<open>parseInt\<close> and cut by \<^verbatim>\<open>trim\<close>.
\<close>

lemma host_strings_latin1:
  "toLowerCase [char_of (201 :: nat)] = [char_of (233 :: nat)]"
  "toLowerCase [char_of (215 :: nat)] = [char_of (215 :: nat)]"
  "toLowerCase [char_of (222 :: nat)] = [char_of (254 :: nat)]"
  "toLowerCase [char_of (223 :: nat)] = [char_of (223 :: nat)]"
  "parseInt (char_of (160 :: nat) # ''5'') = Some 5"
  "trim (char_of (160 :: nat) # ''5 '') = ''5''"
  by code_simp+






subsection \<open>Requests and the registry, step by step\<close>

lemma page_log_dbg [simp]: "page (log_dbg s m w) = page w"
  and outbox_log_dbg [simp]: "outbox (log_dbg s m w) = outbox w"
  and model_log_dbg [simp]: "model (log_dbg s m w) = model w"
  by (simp_all add: log_dbg_def)

lemma requestsFor_simps [simp]:
  "requestsFor t (log s m w) = requestsFor t w"
  "requestsFor t (log_dbg s m w) = requestsFor t w"
  "requestsFor t (updateVoteUI s n w) = requestsFor t w"
  "requestsFor t (w\<lparr>console := k\<rparr>) = requestsFor t w"
  "requestsFor t (w\<lparr>page := d\<rparr>) = requestsFor t w"
  "requestsFor t (w\<lparr>model := md\<rparr>) = requestsFor t w"
  "requestsFor t (w\<lparr>outbox := xs @ [x]\<rparr>) = count_list xs t + (if x = t then 1 else 0)"
  "count_list (outbox w) t = requestsFor t w"
  by (simp_all add: requestsFor_def)

lemma unspent_simps [simp]:
  "unspent t (c\<lparr>timers := n\<rparr>) = unspent t c"
  "unspent t (c\<lparr>reflectTimers := n\<rparr>) = unspent t c"
  "unspent t (c\<lparr>interceptTimers := ts\<rparr>) = unspent t c"
  "unspent t (c\<lparr>awaiting := a\<rparr>) = unspent t c"
  "unspent t (c\<lparr>preVotes := p\<rparr>) = unspent t c"
  "unspent t (c\<lparr>preVotedTopics := q\<rparr>) = unspent t c"
  "unspent t (c\<lparr>currentUser := u\<rparr>) = unspent t c"
  by (simp_all add: unspent_def)

lemma snd_isCategoryAllowed [simp]:
  "requestsFor t (snd (isCategoryAllowed s st c w)) = requestsFor t w"
  "model (snd (isCategoryAllowed s st c w)) = model w"
  "page (snd (isCategoryAllowed s st c w)) = page w"
  "outbox (snd (isCategoryAllowed s st c w)) = outbox w"
  by (auto simp: isCategoryAllowed_def Let_def split: option.splits)

lemma snd_isCategoryAllowed_dbg [simp]:
  "requestsFor t (snd (isCategoryAllowed_dbg s c w)) = requestsFor t w"
  "model (snd (isCategoryAllowed_dbg s c w)) = model w"
  "page (snd (isCategoryAllowed_dbg s c w)) = page w"
  "outbox (snd (isCategoryAllowed_dbg s c w)) = outbox w"
  by (auto simp: isCategoryAllowed_dbg_def Let_def split: option.splits)

text \<open>castVote: one request at most, paid for by the registry entry.\<close>

lemma castVote_budget:
  "requestsFor t (fst (fst (castVote s x src (w, c)))) + unspent t (snd (fst (castVote s x src (w, c))))
     = requestsFor t w + unspent t c"
  by (simp add: castVote_def unspent_def)

lemma castVote_registry:
  "autoVotedTopics c \<subseteq> autoVotedTopics (snd (fst (castVote s x src (w, c))))"
  by (auto simp: castVote_def)

lemma castVoteResume_outbox [simp]:
  "requestsFor t (fst (fst (castVoteResume s x src res (w, c)))) = requestsFor t w"
  by (simp add: castVoteResume_def Let_def split: ajax_result.splits option.splits)

lemma castVoteResume_registry [simp]:
  "autoVotedTopics (snd (fst (castVoteResume s x src res (w, c)))) = autoVotedTopics c"
  by (simp add: castVoteResume_def Let_def split: ajax_result.splits option.splits)

lemma topicCheck_budget:
  "requestsFor t (fst (topicCheck s st (w, c))) + unspent t (snd (topicCheck s st (w, c)))
     = requestsFor t w + unspent t c"
proof (cases "model w")
  case None
  then show ?thesis by (simp add: topicCheck_def)
next
  case (Some tp)
  obtain a w1 where iw: "isCategoryAllowed s st (category_id tp) w = (a, w1)"
    by (cases "isCategoryAllowed s st (category_id tp) w")
  have "requestsFor t (snd (isCategoryAllowed s st (category_id tp) w)) = requestsFor t w"
    by simp
  then have r: "requestsFor t w1 = requestsFor t w"
    unfolding iw by simp
  show ?thesis
    using Some iw r castVote_budget [of t s "topic_id tp" "''onPageChange''"
        "log s (''Found unvoted own topic on page load: '' @ stringOfInt (topic_id tp)) w1" c]
    by (simp add: topicCheck_def)
qed

lemma topicCheck_registry:
  "autoVotedTopics c \<subseteq> autoVotedTopics (snd (topicCheck s st (w, c)))"
  using castVote_registry
  by (auto simp: topicCheck_def split: option.splits prod.splits)

lemma handle_budget:
  "requestsFor t (fst (handle s st ev (w, c))) + unspent t (snd (handle s st ev (w, c)))
     = requestsFor t w + unspent t c"
proof (cases ev)
  case (PageChange url)
  then show ?thesis by (simp add: handle_def onPageChange_def split: option.splits)
next
  case TimerFired
  then show ?thesis
    using topicCheck_budget [of t s st w "c\<lparr>timers := timers c - 1\<rparr>"]
    by (simp add: handle_def)
next
  case (VoteSettled x res)
  then show ?thesis
    by (simp add: handle_def unspent_def split: option.splits)
qed (simp_all add: handle_def)

lemma handle_registry:
  "autoVotedTopics c \<subseteq> autoVotedTopics (snd (handle s st ev (w, c)))"
proof (cases ev)
  case (PageChange url)
  then show ?thesis by (simp add: handle_def onPageChange_def split: option.splits)
next
  case TimerFired
  then show ?thesis
    using topicCheck_registry [of "c\<lparr>timers := timers c - 1\<rparr>" s st w]
    by (simp add: handle_def)
next
  case (VoteSettled x res)
  then show ?thesis
    by (simp add: handle_def split: option.splits)
qed (simp_all add: handle_def)

subsection \<open>Sessions\<close>

lemma requestsFor_hostStep [simp]: "requestsFor t (hostStep ev w) = requestsFor t w"
  by (cases ev) (simp_all add: hostStep_def)

lemma run_Nil [simp]: "run h [] ss = ss"
  by (simp add: run_def)

lemma run_Cons [simp]: "run h (ev # evs) ss = run h evs (step h ss ev)"
  by (simp add: run_def)

lemma run_append: "run h (evs @ evs') ss = run h evs' (run h evs ss)"
  by (simp add: run_def)

lemma step_None [simp]: "step h (w, None) ev = (hostStep ev w, None)"
  by (simp add: step_def)

lemma step_Some:
  "step h (w, Some c) ev = (fst (h ev (hostStep ev w, c)), Some (snd (h ev (hostStep ev w, c))))"
  by (simp add: step_def split: prod.splits)

lemma run_None: "run h evs (w, None) = (hostRun evs w, None)"
proof (induction evs arbitrary: w)
  case Nil
  then show ?case by (simp add: hostRun_def)
next
  case (Cons ev evs)
  then show ?case by (simp add: hostRun_def)
qed

text \<open>
  For a draft whose every delivery keeps the sum of requests sent and requests still
  possible, and never takes a topic out of the registry, a session keeps both.
\<close>

lemma step_budget:
  assumes "\<And>ev w c. requestsFor t (fst (h ev (w, c))) + unspent t (snd (h ev (w, c)))
                        = requestsFor t w + unspent t c"
  shows "requestsFor t (fst (step h ss ev)) + sessionUnspent t (step h ss ev)
           = requestsFor t (fst ss) + sessionUnspent t ss"
proof (cases ss)
  case (Pair w co)
  show ?thesis
  proof (cases co)
    case None
    then show ?thesis using Pair by (simp add: sessionUnspent_def)
  next
    case (Some c)
    then show ?thesis
      using Pair assms [of ev "hostStep ev w" c] by (simp add: step_Some sessionUnspent_def)
  qed
qed

lemma run_budget:
  assumes "\<And>ev w c. requestsFor t (fst (h ev (w, c))) + unspent t (snd (h ev (w, c)))
                        = requestsFor t w + unspent t c"
  shows "requestsFor t (fst (run h evs ss)) + sessionUnspent t (run h evs ss)
           = requestsFor t (fst ss) + sessionUnspent t ss"
proof (induction evs arbitrary: ss)
  case Nil
  then show ?case by simp
next
  case (Cons ev evs)
  then show ?case using step_budget [of t h, OF assms] by simp
qed

lemma step_attempted:
  assumes "\<And>ev w c. autoVotedTopics c \<subseteq> autoVotedTopics (snd (h ev (w, c)))"
    and "attempted t ss"
  shows "attempted t (step h ss ev)"
proof (cases ss)
  case (Pair w co)
  then obtain c where c: "co = Some c" "t \<in> autoVotedTopics c"
    using assms(2) by (auto simp: attempted_def split: option.splits)
  then show ?thesis
    using Pair assms(1) [of c ev "hostStep ev w"] by (auto simp: step_Some attempted_def)
qed

lemma run_attempted:
  assumes "\<And>ev w c. autoVotedTopics c \<subseteq> autoVotedTopics (snd (h ev (w, c)))"
    and "attempted t ss"
  shows "attempted t (run h evs ss)"
  using assms(2)
proof (induction evs arbitrary: ss)
  case Nil
  then show ?case by simp
next
  case (Cons ev evs)
  then show ?case using step_attempted [of h t, OF assms(1)] by simp
qed

lemma attempted_unspent: "attempted t ss \<Longrightarrow> sessionUnspent t ss = 0"
  by (auto simp: attempted_def sessionUnspent_def unspent_def split: option.splits)

lemma run_no_retry:
  assumes b: "\<And>ev w c. requestsFor t (fst (h ev (w, c))) + unspent t (snd (h ev (w, c)))
                        = requestsFor t w + unspent t c"
    and r: "\<And>ev w c. autoVotedTopics c \<subseteq> autoVotedTopics (snd (h ev (w, c)))"
    and a: "attempted t ss"
  shows "requestsFor t (fst (run h evs ss)) = requestsFor t (fst ss)"
  using run_budget [of t h evs ss, OF b] attempted_unspent [OF a]
        attempted_unspent [OF run_attempted [of h t ss evs, OF r a]]
  by simp

lemma run_at_most_once:
  assumes b: "\<And>ev w c. requestsFor t (fst (h ev (w, c))) + unspent t (snd (h ev (w, c)))
                        = requestsFor t w + unspent t c"
  shows "requestsFor t (fst (run h evs (w, Some (newComp u)))) \<le> requestsFor t w + 1"
  using run_budget [of t h evs "(w, Some (newComp u))", OF b]
  by (simp add: sessionUnspent_def unspent_def newComp_def)

subsection \<open>The other drafts, step by step\<close>

lemma castVoteResume_ev_keeps [simp]:
  "requestsFor t (fst (fst (castVoteResume_ev s x res (w, c)))) = requestsFor t w"
  "snd (fst (castVoteResume_ev s x res (w, c))) = c"
  by (simp_all add: castVoteResume_ev_def split: ajax_result.splits)

lemma topicCreated_ev_budget:
  "requestsFor t (fst (topicCreated_ev s data (w, c))) + unspent t (snd (topicCreated_ev s data (w, c)))
     = requestsFor t w + unspent t c"
  using castVote_budget [of t s _ "''topic:created''" "log s ''New topic created:'' (log s ''topic:created event fired:'' w)" c]
  by (simp add: topicCreated_ev_def Let_def split: option.splits)

lemma topicCreated_ev_registry:
  "autoVotedTopics c \<subseteq> autoVotedTopics (snd (topicCreated_ev s data (w, c)))"
  using castVote_registry
  by (auto simp: topicCreated_ev_def Let_def split: option.splits)

lemma topicCheck_ev_budget:
  "requestsFor t (fst (topicCheck_ev s (w, c))) + unspent t (snd (topicCheck_ev s (w, c)))
     = requestsFor t w + unspent t c"
  using castVote_budget [of t s _ "''onPageChange''" "log s _ w" c]
  by (simp add: topicCheck_ev_def split: option.splits)

lemma topicCheck_ev_registry:
  "autoVotedTopics c \<subseteq> autoVotedTopics (snd (topicCheck_ev s (w, c)))"
  using castVote_registry
  by (auto simp: topicCheck_ev_def split: option.splits)

lemma handle_ev_budget:
  "requestsFor t (fst (handle_ev s ev (w, c))) + unspent t (snd (handle_ev s ev (w, c)))
     = requestsFor t w + unspent t c"
proof (cases ev)
  case (PageChange url)
  then show ?thesis by (simp add: handle_ev_def onPageChange_def split: option.splits)
next
  case TimerFired
  then show ?thesis
    using topicCheck_ev_budget [of t s w "c\<lparr>timers := timers c - 1\<rparr>"]
    by (simp add: handle_ev_def)
next
  case (VoteSettled x res)
  then show ?thesis
    by (simp add: handle_ev_def unspent_def split: option.splits)
next
  case (AppEvent nm data)
  then show ?thesis
    using topicCreated_ev_budget [of t s data w c] by (simp add: handle_ev_def)
qed (simp_all add: handle_ev_def)

lemma handle_ev_registry:
  "autoVotedTopics c \<subseteq> autoVotedTopics (snd (handle_ev s ev (w, c)))"
proof (cases ev)
  case (PageChange url)
  then show ?thesis by (simp add: handle_ev_def onPageChange_def split: option.splits)
next
  case TimerFired
  then show ?thesis
    using topicCheck_ev_registry [of "c\<lparr>timers := timers c - 1\<rparr>" s w]
    by (simp add: handle_ev_def)
next
  case (VoteSettled x res)
  then show ?thesis
    by (simp add: handle_ev_def split: option.splits)
next
  case (AppEvent nm data)
  then show ?thesis
    using topicCreated_ev_registry [of c s data w] by (simp add: handle_ev_def)
qed (simp_all add: handle_ev_def)

lemma castVote_dbg_budget:
  "requestsFor t (fst (fst (castVote_dbg s x src (w, c))))
     + unspent t (snd (fst (castVote_dbg s x src (w, c))))
     = requestsFor t w + unspent t c"
  by (simp add: castVote_dbg_def unspent_def Let_def)

lemma castVote_dbg_registry:
  "autoVotedTopics c \<subseteq> autoVotedTopics (snd (fst (castVote_dbg s x src (w, c))))"
  by (auto simp: castVote_dbg_def Let_def)

lemma castVoteResume_dbg_keeps [simp]:
  "requestsFor t (fst (fst (castVoteResume_dbg s x res (w, c)))) = requestsFor t w"
  "snd (fst (castVoteResume_dbg s x res (w, c))) = c"
  by (simp_all add: castVoteResume_dbg_def Let_def split: ajax_result.splits)

lemma checkAndVote_dbg_budget:
  "requestsFor t (fst (checkAndVote_dbg s tp src (w, c)))
     + unspent t (snd (checkAndVote_dbg s tp src (w, c)))
     = requestsFor t w + unspent t c"
proof (cases tp)
  case None
  then show ?thesis by (simp add: checkAndVote_dbg_def Let_def)
next
  case (Some tt)
  obtain a w3 where iw:
    "isCategoryAllowed_dbg s (category_id tt)
       (log_dbg s ''Topic data:'' (log_dbg s (''checkAndVote called from '' @ src) w)) = (a, w3)"
    by (cases "isCategoryAllowed_dbg s (category_id tt)
       (log_dbg s ''Topic data:'' (log_dbg s (''checkAndVote called from '' @ src) w))")
  have "requestsFor t (snd (isCategoryAllowed_dbg s (category_id tt)
       (log_dbg s ''Topic data:'' (log_dbg s (''checkAndVote called from '' @ src) w))))
          = requestsFor t w"
    by simp
  then have r: "requestsFor t w3 = requestsFor t w"
    unfolding iw by simp
  show ?thesis
    using Some iw r
      castVote_dbg_budget [of t s "topic_id tt" src
        "log_dbg s ''All checks passed! Casting vote...'' w3" c]
    by (simp add: checkAndVote_dbg_def Let_def)
qed

lemma checkAndVote_dbg_registry:
  "autoVotedTopics c \<subseteq> autoVotedTopics (snd (checkAndVote_dbg s tp src (w, c)))"
  using castVote_dbg_registry
  by (auto simp: checkAndVote_dbg_def Let_def split: option.splits prod.splits)

lemma topicCheck_dbg_budget:
  "requestsFor t (fst (topicCheck_dbg s (w, c))) + unspent t (snd (topicCheck_dbg s (w, c)))
     = requestsFor t w + unspent t c"
  using checkAndVote_dbg_budget [of t s _ "''onPageChange''"
      "log_dbg s ''Topic controller model: found'' w" c]
  by (simp add: topicCheck_dbg_def split: option.splits)

lemma topicCheck_dbg_registry:
  "autoVotedTopics c \<subseteq> autoVotedTopics (snd (topicCheck_dbg s (w, c)))"
  using checkAndVote_dbg_registry
  by (auto simp: topicCheck_dbg_def split: option.splits)

lemma appEvent_dbg_budget:
  "requestsFor t (fst (appEvent_dbg s nm data (w, c))) + unspent t (snd (appEvent_dbg s nm data (w, c)))
     = requestsFor t w + unspent t c"
  using castVote_dbg_budget [of t s _ "''appEvent:'' @ nm" "log_dbg s _ (log_dbg s _ w)" c]
  by (simp add: appEvent_dbg_def Let_def split: option.splits)

lemma appEvent_dbg_registry:
  "autoVotedTopics c \<subseteq> autoVotedTopics (snd (appEvent_dbg s nm data (w, c)))"
  using castVote_dbg_registry
  by (auto simp: appEvent_dbg_def Let_def split: option.splits)

lemma isCategoryAllowed_dbg_world:
  "isCategoryAllowed_dbg s cat w = (a, w') \<Longrightarrow> requestsFor t w' = requestsFor t w"
  using snd_isCategoryAllowed_dbg(1) [of t s cat w] by simp

lemma castVote_dbg_requests:
  "requestsFor t (fst (fst (castVote_dbg s x src (w, c))))
     = requestsFor t w + (if x = t \<and> x \<notin> autoVotedTopics c then 1 else 0)"
  by (simp add: castVote_dbg_def Let_def)

lemma castVote_dbg_inserts:
  "autoVotedTopics (snd (fst (castVote_dbg s x src (w, c)))) = insert x (autoVotedTopics c)"
  by (auto simp: castVote_dbg_def Let_def)

lemma composerAfterSave_dbg_budget:
  "requestsFor t (fst (composerAfterSave_dbg s n cat r (w, c)))
     + unspent t (snd (composerAfterSave_dbg s n cat r (w, c)))
     = requestsFor t w + unspent t c"
  by (auto simp: composerAfterSave_dbg_def Let_def truthy_def unspent_def
                 castVote_dbg_requests castVote_dbg_inserts
           split: option.splits prod.splits
           dest: isCategoryAllowed_dbg_world [where t = t])

lemma composerAfterSave_dbg_registry:
  "autoVotedTopics c \<subseteq> autoVotedTopics (snd (composerAfterSave_dbg s n cat r (w, c)))"
  using castVote_dbg_registry
  by (auto simp: composerAfterSave_dbg_def Let_def split: option.splits prod.splits)

lemma ajaxDone_dbg_keeps:
  "requestsFor t (fst (ajaxDone_dbg s m url p (w, c))) = requestsFor t w"
  "autoVotedTopics (snd (ajaxDone_dbg s m url p (w, c))) = autoVotedTopics c"
  by (simp_all add: ajaxDone_dbg_def Let_def split: option.splits)

lemma handle_dbg_budget:
  "requestsFor t (fst (handle_dbg s ev (w, c))) + unspent t (snd (handle_dbg s ev (w, c)))
     = requestsFor t w + unspent t c"
proof (cases ev)
  case (PageChange url)
  then show ?thesis
    by (simp add: handle_dbg_def onPageChange_dbg_def Let_def split: option.splits)
next
  case TimerFired
  then show ?thesis
    using topicCheck_dbg_budget [of t s w "c\<lparr>timers := timers c - 1\<rparr>"]
    by (simp add: handle_dbg_def)
next
  case InterceptTimerFired
  then show ?thesis
    by (auto simp: handle_dbg_def castVote_dbg_requests castVote_dbg_inserts unspent_def
             split: list.splits)
next
  case (VoteSettled x res)
  then show ?thesis
    by (simp add: handle_dbg_def unspent_def split: option.splits)
next
  case (AppEvent nm data)
  then show ?thesis
    using appEvent_dbg_budget [of t s nm data w c] by (simp add: handle_dbg_def)
next
  case (ComposerSaved n cat r)
  then show ?thesis
    using composerAfterSave_dbg_budget [of t s n cat r w c] by (simp add: handle_dbg_def)
next
  case (AjaxDone m url p)
  then show ?thesis
    by (simp add: handle_dbg_def unspent_def ajaxDone_dbg_keeps)
qed (simp_all add: handle_dbg_def)

lemma handle_dbg_registry:
  "autoVotedTopics c \<subseteq> autoVotedTopics (snd (handle_dbg s ev (w, c)))"
proof (cases ev)
  case (PageChange url)
  then show ?thesis
    by (simp add: handle_dbg_def onPageChange_dbg_def Let_def split: option.splits)
next
  case TimerFired
  then show ?thesis
    using topicCheck_dbg_registry [of "c\<lparr>timers := timers c - 1\<rparr>" s w]
    by (simp add: handle_dbg_def)
next
  case InterceptTimerFired
  then show ?thesis
    by (auto simp: handle_dbg_def castVote_dbg_inserts split: list.splits)
next
  case (VoteSettled x res)
  then show ?thesis
    by (simp add: handle_dbg_def split: option.splits)
next
  case (AppEvent nm data)
  then show ?thesis
    using appEvent_dbg_registry [of c s nm data w] by (simp add: handle_dbg_def)
next
  case (ComposerSaved n cat r)
  then show ?thesis
    using composerAfterSave_dbg_registry [of c s n cat r w] by (simp add: handle_dbg_def)
next
  case (AjaxDone m url p)
  then show ?thesis
    by (simp add: handle_dbg_def ajaxDone_dbg_keeps)
qed (simp_all add: handle_dbg_def)

lemma castVote_pre_requests:
  "requestsFor t (fst (fst (castVote_pre s x (w, c))))
     = requestsFor t w
       + (if x = t \<and> auto_vote_enabled s \<and> x \<notin> autoVotedTopics c then 1 else 0)"
  by (simp add: castVote_pre_def)

lemma castVote_pre_inserts:
  "autoVotedTopics (snd (fst (castVote_pre s x (w, c))))
     = (if auto_vote_enabled s then insert x (autoVotedTopics c) else autoVotedTopics c)"
  by (auto simp: castVote_pre_def)

lemma castVoteResume_pre_keeps [simp]:
  "requestsFor t (fst (fst (castVoteResume_pre x res (w, c)))) = requestsFor t w"
  "autoVotedTopics (snd (fst (castVoteResume_pre x res (w, c)))) = autoVotedTopics c"
  by (simp_all add: castVoteResume_pre_def Let_def split: ajax_result.splits option.splits)

lemma composerSave_pre_effect:
  "requestsFor t (fst (composerSave_pre s st n cat r (w, c)))
     = requestsFor t w + (if hookSends s st t (ComposerSaved n cat r) then 1 else 0)"
  "autoVotedTopics (snd (composerSave_pre s st n cat r (w, c))) = autoVotedTopics c"
  by (auto simp: composerSave_pre_def hookSends_def split: option.splits)

lemma preVoteSettled_keeps [simp]:
  "requestsFor t (fst (preVoteSettled x res (w, c))) = requestsFor t w"
  "autoVotedTopics (snd (preVoteSettled x res (w, c))) = autoVotedTopics c"
  by (simp_all add: preVoteSettled_def Let_def split: ajax_result.splits)

lemma onPageChange_pre_effect:
  "requestsFor t (fst (onPageChange_pre s url (w, c))) = requestsFor t w"
  "autoVotedTopics c \<subseteq> autoVotedTopics (snd (onPageChange_pre s url (w, c)))"
  by (auto simp: onPageChange_pre_def Let_def split: option.splits)

lemma topicCheck_pre_requests:
  "requestsFor t (fst (topicCheck_pre s st (w, c)))
     \<le> requestsFor t w + (if t \<in> autoVotedTopics c then 0 else 1)"
  by (auto simp: topicCheck_pre_def castVote_pre_requests split: option.splits)

lemma topicCheck_pre_budget:
  "requestsFor t (fst (topicCheck_pre s st (w, c))) + unspent t (snd (topicCheck_pre s st (w, c)))
     = requestsFor t w + unspent t c"
  by (auto simp: topicCheck_pre_def castVote_pre_requests castVote_pre_inserts unspent_def
           split: option.splits)

lemma topicCheck_pre_registry:
  "autoVotedTopics c \<subseteq> autoVotedTopics (snd (topicCheck_pre s st (w, c)))"
  by (auto simp: topicCheck_pre_def castVote_pre_inserts split: option.splits)

lemma hookSends_other [simp]:
  "\<not> hookSends s st t (PageChange url)" "\<not> hookSends s st t TimerFired"
  "\<not> hookSends s st t ReflectTimerFired" "\<not> hookSends s st t InterceptTimerFired"
  "\<not> hookSends s st t (VoteSettled x res)" "\<not> hookSends s st t (PreVoteSettled x res)"
  "\<not> hookSends s st t (AppEvent nm data)" "\<not> hookSends s st t (AjaxDone m u p)"
  "\<not> hookSends s st t (HostModel md)" "\<not> hookSends s st t (HostRender d)"
  by (simp_all add: hookSends_def)

lemma handle_pre_registry:
  "autoVotedTopics c \<subseteq> autoVotedTopics (snd (handle_pre s st ev (w, c)))"
proof (cases ev)
  case (PageChange url)
  then show ?thesis using onPageChange_pre_effect(2) [of c s url w] by (simp add: handle_pre_def)
next
  case TimerFired
  then show ?thesis
    using topicCheck_pre_registry [of "c\<lparr>timers := timers c - 1\<rparr>" s st w]
    by (simp add: handle_pre_def)
next
  case (VoteSettled x res)
  then show ?thesis by (simp add: handle_pre_def split: option.splits)
next
  case (ComposerSaved n cat r)
  then show ?thesis by (simp add: handle_pre_def composerSave_pre_effect)
qed (simp_all add: handle_pre_def)

lemma handle_pre_budget:
  "requestsFor t (fst (handle_pre s st ev (w, c))) + unspent t (snd (handle_pre s st ev (w, c)))
     \<le> requestsFor t w + unspent t c + (if hookSends s st t ev then 1 else 0)"
proof (cases ev)
  case (PageChange url)
  then show ?thesis
    using onPageChange_pre_effect(1) [of t s url w c] onPageChange_pre_effect(2) [of c s url w]
    by (auto simp: handle_pre_def unspent_def)
next
  case TimerFired
  then show ?thesis
    using topicCheck_pre_budget [of t s st w "c\<lparr>timers := timers c - 1\<rparr>"]
    by (simp add: handle_pre_def)
next
  case ReflectTimerFired
  then show ?thesis by (simp add: handle_pre_def)
next
  case (VoteSettled x res)
  then show ?thesis by (simp add: handle_pre_def unspent_def split: option.splits)
next
  case (PreVoteSettled x res)
  then show ?thesis by (simp add: handle_pre_def unspent_def)
next
  case (ComposerSaved n cat r)
  then show ?thesis by (simp add: handle_pre_def unspent_def composerSave_pre_effect)
qed (simp_all add: handle_pre_def)

lemma handle_pre_attempted:
  assumes "t \<in> autoVotedTopics c"
  shows "requestsFor t (fst (handle_pre s st ev (w, c)))
           = requestsFor t w + (if hookSends s st t ev then 1 else 0)"
proof (cases ev)
  case (PageChange url)
  then show ?thesis
    using onPageChange_pre_effect(1) [of t s url w c] by (simp add: handle_pre_def)
next
  case TimerFired
  then show ?thesis
    using assms
    by (auto simp: handle_pre_def topicCheck_pre_def castVote_pre_requests split: option.splits)
next
  case ReflectTimerFired
  then show ?thesis by (simp add: handle_pre_def)
next
  case (VoteSettled x res)
  then show ?thesis by (simp add: handle_pre_def split: option.splits)
next
  case (PreVoteSettled x res)
  then show ?thesis by (simp add: handle_pre_def)
next
  case (ComposerSaved n cat r)
  then show ?thesis by (simp add: handle_pre_def composerSave_pre_effect)
qed (simp_all add: handle_pre_def)

lemma hookRequests_Nil [simp]: "hookRequests s st [] t = 0"
  by (simp add: hookRequests_def)

lemma hookRequests_Cons [simp]:
  "hookRequests s st (ev # evs) t
     = (if hookSends s st t ev then 1 else 0) + hookRequests s st evs t"
  by (simp add: hookRequests_def)

lemma step_pre_budget:
  "requestsFor t (fst (step (handle_pre s st) ss ev)) + sessionUnspent t (step (handle_pre s st) ss ev)
     \<le> requestsFor t (fst ss) + sessionUnspent t ss + (if hookSends s st t ev then 1 else 0)"
proof (cases ss)
  case (Pair w co)
  show ?thesis
  proof (cases co)
    case None
    then show ?thesis using Pair by (simp add: sessionUnspent_def)
  next
    case (Some c)
    then show ?thesis
      using Pair handle_pre_budget [of t s st ev "hostStep ev w" c]
      by (simp add: step_Some sessionUnspent_def)
  qed
qed

lemma run_pre_budget:
  "requestsFor t (fst (run (handle_pre s st) evs ss)) + sessionUnspent t (run (handle_pre s st) evs ss)
     \<le> requestsFor t (fst ss) + sessionUnspent t ss + hookRequests s st evs t"
proof (induction evs arbitrary: ss)
  case Nil
  then show ?case by simp
next
  case (Cons ev evs)
  show ?case
    using Cons.IH [of "step (handle_pre s st) ss ev"] step_pre_budget [of t s st ss ev]
    by simp
qed

lemma run_pre_attempted:
  assumes "t \<in> autoVotedTopics c"
  shows "requestsFor t (fst (run (handle_pre s st) evs (w, Some c)))
           = requestsFor t w + hookRequests s st evs t"
  using assms
proof (induction evs arbitrary: w c)
  case Nil
  then show ?case by simp
next
  case (Cons ev evs)
  have "t \<in> autoVotedTopics (snd (handle_pre s st ev (hostStep ev w, c)))"
    using handle_pre_registry [of c s st ev "hostStep ev w"] Cons.prems by auto
  then show ?case
    using Cons.IH [of "snd (handle_pre s st ev (hostStep ev w, c))"
                      "fst (handle_pre s st ev (hostStep ev w, c))"]
          handle_pre_attempted [OF Cons.prems, of s st ev "hostStep ev w"]
    by (simp add: step_Some)
qed

lemma handle_pre_sends:
  "requestsFor t w + (if hookSends s st t ev then 1 else 0)
     \<le> requestsFor t (fst (handle_pre s st ev (w, c)))"
proof (cases ev)
  case (PageChange url)
  then show ?thesis
    using onPageChange_pre_effect(1) [of t s url w c] by (simp add: handle_pre_def)
next
  case TimerFired
  then show ?thesis
    by (auto simp: handle_pre_def topicCheck_pre_def castVote_pre_requests split: option.splits)
next
  case ReflectTimerFired
  then show ?thesis by (simp add: handle_pre_def)
next
  case (VoteSettled x res)
  then show ?thesis by (simp add: handle_pre_def split: option.splits)
next
  case (PreVoteSettled x res)
  then show ?thesis by (simp add: handle_pre_def)
next
  case (ComposerSaved n cat r)
  then show ?thesis by (simp add: handle_pre_def composerSave_pre_effect)
qed (simp_all add: handle_pre_def)

lemma run_pre_sends:
  "requestsFor t w + hookRequests s st evs t
     \<le> requestsFor t (fst (run (handle_pre s st) evs (w, Some c)))"
proof (induction evs arbitrary: w c)
  case Nil
  then show ?case by simp
next
  case (Cons ev evs)
  show ?case
    using Cons.IH [of "fst (handle_pre s st ev (hostStep ev w, c))"
                      "snd (handle_pre s st ev (hostStep ev w, c))"]
          handle_pre_sends [of t "hostStep ev w" s st ev c]
    by (simp add: step_Some)
qed

subsection \<open>At most one request through castVote\<close>

lemma requestsFor_hostRun [simp]: "requestsFor t (hostRun evs w) = requestsFor t w"
  unfolding hostRun_def by (induction evs arbitrary: w) simp_all

lemma session_at_most_once:
  assumes "\<And>ev w c. requestsFor t (fst (h ev (w, c))) + unspent t (snd (h ev (w, c)))
                        = requestsFor t w + unspent t c"
    and "requestsFor t w0 = requestsFor t w"
    and "co = None \<or> (\<exists>u. co = Some (newComp u))"
  shows "requestsFor t (fst (run h evs (w0, co))) \<le> requestsFor t w + 1"
proof (cases co)
  case None
  then show ?thesis using assms(2) by (simp add: run_None)
next
  case (Some c)
  then obtain u where "co = Some (newComp u)" using assms(3) by auto
  then show ?thesis
    using run_at_most_once [of t h evs w0 u, OF assms(1)] assms(2) by simp
qed

lemma castVote_registered:
  "castVote s t src (w, c\<lparr>autoVotedTopics := insert t (autoVotedTopics c)\<rparr>)
     = ((log s (if auto_vote_enabled s
                then ''Already attempted auto-vote for topic: '' @ stringOfInt t
                else ''Auto-vote is disabled'') w,
         c\<lparr>autoVotedTopics := insert t (autoVotedTopics c)\<rparr>), Some False)"
  by (simp add: castVote_def)

lemma castVote_inserts:
  "autoVotedTopics (snd (fst (castVote s x src (w, c))))
     = (if auto_vote_enabled s then insert x (autoVotedTopics c) else autoVotedTopics c)"
  by (auto simp: castVote_def)

lemma castVote_requests:
  "requestsFor t (fst (fst (castVote s x src (w, c))))
     = requestsFor t w
       + (if x = t \<and> auto_vote_enabled s \<and> x \<notin> autoVotedTopics c then 1 else 0)"
  by (simp add: castVote_def)

text \<open>
  Claim C2, as amended. Over any session and for any topic id, \<^verbatim>\<open>castVote\<close> sends at most
  one vote request, whichever trigger calls it and however often: in part_002, part_000
  and the named draft, where every trigger goes through \<^verbatim>\<open>castVote\<close>, a session adds at
  most one request for the topic; in part_001 the \<^verbatim>\<open>save\<close> hook sends its own request
  outside \<^verbatim>\<open>castVote\<close>, so a session adds those requests and at most one more. Before
  any request \<^verbatim>\<open>castVote\<close> checks \<^verbatim>\<open>autoVotedTopics\<close> and inserts the topic; called for a
  topic that is present it returns false and sends nothing.
\<close>

theorem castVote_at_most_once:
  "requestsFor t (fst (run (handle s st) evs (initializer s cu w))) \<le> requestsFor t w + 1
   \<and> requestsFor t (fst (run (handle_ev s) evs (initializer s cu w))) \<le> requestsFor t w + 1
   \<and> requestsFor t (fst (run (handle_dbg s) evs (initializer_dbg s cu w))) \<le> requestsFor t w + 1
   \<and> requestsFor t (fst (run (handle_pre s st) evs (initializer_pre cu w)))
        \<le> requestsFor t w + hookRequests s st evs t + 1
   \<and> requestsFor t w + hookRequests s st evs t
        \<le> requestsFor t (fst (run (handle_pre s st) evs (initializer_pre (Some u) w)))
   \<and> requestsFor t (fst (fst (castVote s t src (w, c))))
        = requestsFor t w + (if auto_vote_enabled s \<and> t \<notin> autoVotedTopics c then 1 else 0)
   \<and> autoVotedTopics (snd (fst (castVote s t src (w, c))))
        = (if auto_vote_enabled s then insert t (autoVotedTopics c) else autoVotedTopics c)
   \<and> snd (castVote s t src (w, c\<lparr>autoVotedTopics := insert t (autoVotedTopics c)\<rparr>)) = Some False
   \<and> outbox (fst (fst (castVote s t src (w, c\<lparr>autoVotedTopics := insert t (autoVotedTopics c)\<rparr>))))
        = outbox w"
proof (intro conjI)
  show "requestsFor t (fst (run (handle s st) evs (initializer s cu w))) \<le> requestsFor t w + 1"
    using session_at_most_once [of t "handle s st" "fst (initializer s cu w)" w
                                   "snd (initializer s cu w)" evs, OF handle_budget]
    by (cases cu) (auto simp: initializer_def)
  show "requestsFor t (fst (run (handle_ev s) evs (initializer s cu w))) \<le> requestsFor t w + 1"
    using session_at_most_once [of t "handle_ev s" "fst (initializer s cu w)" w
                                   "snd (initializer s cu w)" evs, OF handle_ev_budget]
    by (cases cu) (auto simp: initializer_def)
  show "requestsFor t (fst (run (handle_dbg s) evs (initializer_dbg s cu w))) \<le> requestsFor t w + 1"
    using session_at_most_once [of t "handle_dbg s" "fst (initializer_dbg s cu w)" w
                                   "snd (initializer_dbg s cu w)" evs, OF handle_dbg_budget]
    by (cases cu) (auto simp: initializer_dbg_def Let_def)
  show "requestsFor t (fst (run (handle_pre s st) evs (initializer_pre cu w)))
          \<le> requestsFor t w + hookRequests s st evs t + 1"
    using run_pre_budget [of t s st evs "initializer_pre cu w"]
    by (cases cu) (auto simp: initializer_pre_def sessionUnspent_def unspent_def newComp_def)
  show "requestsFor t w + hookRequests s st evs t
          \<le> requestsFor t (fst (run (handle_pre s st) evs (initializer_pre (Some u) w)))"
    using run_pre_sends [of t w s st evs "newComp u"] by (simp add: initializer_pre_def)
qed (simp_all add: castVote_requests castVote_inserts castVote_registered)

text \<open>
  The claim as stated fails in part_001: the \<^verbatim>\<open>save\<close> hook votes for the new topic 1234,
  the request fails and the hook takes the topic out of \<^verbatim>\<open>preVotedTopics\<close>; on arrival at
  the topic's page \<^verbatim>\<open>castVote\<close> finds nothing in \<^verbatim>\<open>autoVotedTopics\<close> and votes again.
\<close>

theorem prevote_two_requests_counterexample:
  "outbox (fst (run (handle_pre (exSettings None) exSite) (exSaveFails @ exArrival)
                  (initializer_pre (Some exUser) exWorld))) = [1234, 1234]
   \<and> \<not> requestsFor 1234 (fst (run (handle_pre (exSettings None) exSite)
                                    (exSaveFails @ exArrival)
                                    (initializer_pre (Some exUser) exWorld))) \<le> 1"
  by code_simp

subsection \<open>No retry after a failed attempt\<close>

lemma castVoteResume_rejected:
  "status \<noteq> Some 422 \<Longrightarrow>
     castVoteResume s t src (Rejected status) (w, c) = ((log s ''Error casting vote:'' w, c), False)"
  by (simp add: castVoteResume_def)

lemma session_no_retry:
  assumes "attempted t ss"
  shows "requestsFor t (fst (run (handle s st) evs ss)) = requestsFor t (fst ss)"
    and "requestsFor t (fst (run (handle_ev s) evs ss)) = requestsFor t (fst ss)"
    and "requestsFor t (fst (run (handle_dbg s) evs ss)) = requestsFor t (fst ss)"
    and "requestsFor t (fst (run (handle_pre s st) evs ss))
           = requestsFor t (fst ss) + hookRequests s st evs t"
proof -
  show "requestsFor t (fst (run (handle s st) evs ss)) = requestsFor t (fst ss)"
    by (rule run_no_retry [OF handle_budget handle_registry assms])
  show "requestsFor t (fst (run (handle_ev s) evs ss)) = requestsFor t (fst ss)"
    by (rule run_no_retry [OF handle_ev_budget handle_ev_registry assms])
  show "requestsFor t (fst (run (handle_dbg s) evs ss)) = requestsFor t (fst ss)"
    by (rule run_no_retry [OF handle_dbg_budget handle_dbg_registry assms])
  obtain w c where ss: "ss = (w, Some c)" "t \<in> autoVotedTopics c"
    using assms by (cases ss) (auto simp: attempted_def split: option.splits)
  show "requestsFor t (fst (run (handle_pre s st) evs ss))
          = requestsFor t (fst ss) + hookRequests s st evs t"
    using run_pre_attempted [OF ss(2), of s st evs w] ss(1) by simp
qed

text \<open>
  Claim C6, as amended. When a request sent by \<^verbatim>\<open>castVote\<close> fails with a status other than
  422, \<^verbatim>\<open>castVote\<close> returns false through its error branch and the topic stays in
  \<^verbatim>\<open>autoVotedTopics\<close>, however the request settles. From a state in which the topic is in
  \<^verbatim>\<open>autoVotedTopics\<close>, no later event makes \<^verbatim>\<open>castVote\<close> send a request for it, and every
  later \<^verbatim>\<open>castVote\<close> call for it returns false: in part_002, part_000 and the named draft
  the number of requests for the topic stays as it is, in part_001 it grows only by the
  requests of the \<^verbatim>\<open>save\<close> hook. (The request of that hook is outside this rule: when it fails, the hook removes
  its own mark, and a later visit may vote.)
\<close>

theorem failed_vote_not_retried:
  "(status \<noteq> Some 422 \<longrightarrow>
      castVoteResume s t src (Rejected status) (w, c) = ((log s ''Error casting vote:'' w, c), False))
   \<and> castVoteResume_pre t (Rejected status) (w, c) = ((w, c), False)
   \<and> autoVotedTopics (snd (fst (castVoteResume s t src res (w, c)))) = autoVotedTopics c
   \<and> autoVotedTopics (snd (fst (castVoteResume_pre t res (w, c)))) = autoVotedTopics c
   \<and> (attempted t ss \<longrightarrow>
        requestsFor t (fst (run (handle s st) evs ss)) = requestsFor t (fst ss)
        \<and> attempted t (run (handle s st) evs ss)
        \<and> requestsFor t (fst (run (handle_pre s st) evs ss))
            = requestsFor t (fst ss) + hookRequests s st evs t
        \<and> attempted t (run (handle_pre s st) evs ss)
        \<and> requestsFor t (fst (run (handle_ev s) evs ss)) = requestsFor t (fst ss)
        \<and> requestsFor t (fst (run (handle_dbg s) evs ss)) = requestsFor t (fst ss))
   \<and> snd (castVote s t src (w, c\<lparr>autoVotedTopics := insert t (autoVotedTopics c)\<rparr>)) = Some False
   \<and> snd (castVote_pre s t (w, c\<lparr>autoVotedTopics := insert t (autoVotedTopics c)\<rparr>)) = Some False"
proof (intro conjI impI)
  assume "status \<noteq> Some 422"
  then show "castVoteResume s t src (Rejected status) (w, c)
               = ((log s ''Error casting vote:'' w, c), False)"
    by (rule castVoteResume_rejected)
next
  show "castVoteResume_pre t (Rejected status) (w, c) = ((w, c), False)"
    by (simp add: castVoteResume_pre_def)
next
  assume a: "attempted t ss"
  show "requestsFor t (fst (run (handle s st) evs ss)) = requestsFor t (fst ss)"
    by (rule session_no_retry(1) [OF a])
  show "attempted t (run (handle s st) evs ss)"
    by (rule run_attempted [OF handle_registry a])
  show "requestsFor t (fst (run (handle_pre s st) evs ss))
          = requestsFor t (fst ss) + hookRequests s st evs t"
    by (rule session_no_retry(4) [OF a])
  show "attempted t (run (handle_pre s st) evs ss)"
    by (rule run_attempted [OF handle_pre_registry a])
  show "requestsFor t (fst (run (handle_ev s) evs ss)) = requestsFor t (fst ss)"
    by (rule session_no_retry(2) [OF a])
  show "requestsFor t (fst (run (handle_dbg s) evs ss)) = requestsFor t (fst ss)"
    by (rule session_no_retry(3) [OF a])
qed (simp_all add: castVote_registered castVote_pre_def)

theorem failed_vote_not_retried_witness:
  "Some 500 \<noteq> Some (422 :: int)
   \<and> snd (castVoteResume (exSettings None) 1234 ''onPageChange'' (Rejected (Some 500))
            (exWorld, newComp exUser)) = False
   \<and> attempted 1234 (run (handle (exSettings None) exSite)
                        (exArrival @ [VoteSettled 1234 (Rejected (Some 500))])
                        (initializer (exSettings None) (Some exUser) exWorld))
   \<and> outbox (fst (run (handle (exSettings None) exSite)
                    (exArrival @ [VoteSettled 1234 (Rejected (Some 500))])
                    (initializer (exSettings None) (Some exUser) exWorld))) = [1234]
   \<and> requestsFor 1234 (fst (run (handle (exSettings None) exSite) exArrival
         (run (handle (exSettings None) exSite)
            (exArrival @ [VoteSettled 1234 (Rejected (Some 500))])
            (initializer (exSettings None) (Some exUser) exWorld)))) = 1"
proof -
  let ?ss = "run (handle (exSettings None) exSite)
               (exArrival @ [VoteSettled 1234 (Rejected (Some 500))])
               (initializer (exSettings None) (Some exUser) exWorld)"
  have h1: "Some 500 \<noteq> Some (422 :: int)" by simp
  have h2: "attempted 1234 ?ss" by code_simp
  have o: "outbox (fst ?ss) = [1234]" by code_simp
  have r: "requestsFor 1234 (fst ?ss) = 1" by code_simp
  show ?thesis
    using failed_vote_not_retried [where status = "Some 500" and s = "exSettings None"
        and t = 1234 and src = "''onPageChange''" and w = exWorld and c = "newComp exUser"
        and ss = ?ss and st = exSite and evs = exArrival and res = "Rejected (Some 500)"]
      h1 h2 o r
    by simp
qed

text \<open>
  The claim as stated fails in part_001 for the request of the \<^verbatim>\<open>save\<close> hook: after the
  failure with status 500 topic 1234 is in neither set, and the arrival on its page sends
  a second request.
\<close>

theorem prevote_failure_retry_counterexample:
  "\<not> attempted 1234 (run (handle_pre (exSettings None) exSite) exSaveFails
                        (initializer_pre (Some exUser) exWorld))
   \<and> outbox (fst (run (handle_pre (exSettings None) exSite) exSaveFails
                    (initializer_pre (Some exUser) exWorld))) = [1234]
   \<and> outbox (fst (run (handle_pre (exSettings None) exSite) exArrival
                    (run (handle_pre (exSettings None) exSite) exSaveFails
                       (initializer_pre (Some exUser) exWorld)))) = [1234, 1234]"
  by code_simp

subsection \<open>A rejected vote request\<close>

lemma console_log: "console (log s m w) = console w @ (if auto_vote_debug_mode s then [ConsoleLog m] else [])"
  by (simp add: log_def)

lemma console_log_dbg: "console (log_dbg s m w) = console w @ [ConsoleLog m]"
  by (simp add: log_dbg_def DEBUG_def)

text \<open>
  Claim C5, as amended. When the vote request is rejected, with status 422 or with any
  other status or none, \<^verbatim>\<open>castVote\<close> of each draft returns false, the value it also
  returns for a duplicate attempt: its result is a boolean, with no outcome that tells a
  rejection with 422 from another failure. The call returns normally, so no error reaches
  the trigger, and it leaves the closure state, the requests sent, the page and the topic
  model as they are. Only the console tells the two apart. At 422 part_002 reports "Could
  not vote" through \<^verbatim>\<open>log\<close>, that is in debug mode only, and at another status "Error
  casting vote" the same way; the named draft reports "Could not vote" through its
  \<^verbatim>\<open>log\<close> at 422 and writes to \<^verbatim>\<open>console.error\<close> at another status.
\<close>

theorem rejected_vote_returns_false:
  "snd (castVoteResume s t src (Rejected status) (w, c)) = False
   \<and> snd (castVoteResume_dbg s t (Rejected status) (w, c)) = False
   \<and> snd (castVoteResume_ev s t (Rejected status) (w, c)) = False
   \<and> snd (castVoteResume_pre t (Rejected status) (w, c)) = False
   \<and> snd (fst (castVoteResume s t src (Rejected status) (w, c))) = c
   \<and> snd (fst (castVoteResume_dbg s t (Rejected status) (w, c))) = c
   \<and> mute (fst (fst (castVoteResume s t src (Rejected status) (w, c)))) = mute w
   \<and> mute (fst (fst (castVoteResume_dbg s t (Rejected status) (w, c)))) = mute w
   \<and> console (fst (fst (castVoteResume s t src (Rejected status) (w, c))))
       = console w
         @ (if auto_vote_debug_mode s
            then [ConsoleLog (if status = Some 422
                              then ''Could not vote (already voted or voting not enabled): ''
                                   @ stringOfInt t
                              else ''Error casting vote:'')]
            else [])
   \<and> console (fst (fst (castVoteResume_dbg s t (Rejected status) (w, c))))
       = console w
         @ [ConsoleLog ''Vote API error:'',
            if status = Some 422
            then ConsoleLog ''Could not vote (may already be voted or not allowed)''
            else ConsoleError ''[Auto Vote Own Topic] Error casting vote:'']
   \<and> snd (castVote s t src (w, c\<lparr>autoVotedTopics := insert t (autoVotedTopics c)\<rparr>)) = Some False
   \<and> snd (castVote_dbg s t src (w, c\<lparr>autoVotedTopics := insert t (autoVotedTopics c)\<rparr>)) = Some False"
  by (simp add: castVoteResume_def castVoteResume_dbg_def castVoteResume_ev_def
                castVoteResume_pre_def castVote_registered castVote_dbg_def console_log
                console_log_dbg mute_def log_def log_dbg_def DEBUG_def Let_def)

text \<open>
  The claim as stated fails: no outcome "Skipped, not Failed" is returned. In part_002 with
  debug mode off, a rejection with 422 and one with 500 give the same result and the same
  state, also over a whole session in which the user arrives on their topic and the
  request is rejected; in the named draft the two return the same value.
\<close>

theorem rejected_422_same_as_500_counterexample:
  "castVoteResume (exSettings None) 1234 ''onPageChange'' (Rejected (Some 422))
       (exWorld, newComp exUser)
     = castVoteResume (exSettings None) 1234 ''onPageChange'' (Rejected (Some 500))
         (exWorld, newComp exUser)
   \<and> snd (castVoteResume_dbg (exSettings None) 1234 (Rejected (Some 422))
            (exWorld, newComp exUser))
     = snd (castVoteResume_dbg (exSettings None) 1234 (Rejected (Some 500))
              (exWorld, newComp exUser))
   \<and> run (handle (exSettings None) exSite)
         (exArrival @ [VoteSettled 1234 (Rejected (Some 422))])
         (initializer (exSettings None) (Some exUser) exWorld)
     = run (handle (exSettings None) exSite)
         (exArrival @ [VoteSettled 1234 (Rejected (Some 500))])
         (initializer (exSettings None) (Some exUser) exWorld)
   \<and> outbox (fst (run (handle (exSettings None) exSite)
         (exArrival @ [VoteSettled 1234 (Rejected (Some 422))])
         (initializer (exSettings None) (Some exUser) exWorld))) = [1234]"
  by code_simp

subsection \<open>The guard of a vote attempt\<close>

lemma castVote_outbox:
  "outbox (fst (fst (castVote s x src (w, c))))
     = (if auto_vote_enabled s \<and> x \<notin> autoVotedTopics c then outbox w @ [x] else outbox w)"
  by (simp add: castVote_def)

lemma castVote_dbg_outbox:
  "outbox (fst (fst (castVote_dbg s x src (w, c))))
     = (if x \<notin> autoVotedTopics c then outbox w @ [x] else outbox w)"
  by (simp add: castVote_dbg_def Let_def)

lemma isCategoryAllowed_cases:
  obtains w1 where "isCategoryAllowed s st cat w = (isCategoryAllowed_pre s st cat, w1)"
    and "outbox w1 = outbox w" and "model w1 = model w" and "page w1 = page w"
proof -
  have "isCategoryAllowed s st cat w
          = (isCategoryAllowed_pre s st cat, snd (isCategoryAllowed s st cat w))"
    by (simp add: prod_eq_iff fst_isCategoryAllowed)
  then show ?thesis
    using that [of "snd (isCategoryAllowed s st cat w)"] by simp
qed

lemma isCategoryAllowed_dbg_cases:
  obtains w1 where "isCategoryAllowed_dbg s cat w = (isCategoryAllowed_ev s cat, w1)"
    and "outbox w1 = outbox w" and "model w1 = model w" and "page w1 = page w"
proof -
  have "isCategoryAllowed_dbg s cat w
          = (isCategoryAllowed_ev s cat, snd (isCategoryAllowed_dbg s cat w))"
    by (simp add: prod_eq_iff fst_isCategoryAllowed_dbg)
  then show ?thesis
    using that [of "snd (isCategoryAllowed_dbg s cat w)"] by simp
qed

lemma topicCheck_guard:
  assumes "model w = Some tp" and "topic_id tp \<notin> autoVotedTopics c"
  shows "outbox (fst (topicCheck s st (w, c)))
           = (if shouldVote (auto_vote_enabled s) (isCategoryAllowed_pre s st) tp
                   (usr_id (currentUser c))
              then outbox w @ [topic_id tp] else outbox w)"
    and "autoVotedTopics (snd (topicCheck s st (w, c)))
           = (if shouldVote (auto_vote_enabled s) (isCategoryAllowed_pre s st) tp
                   (usr_id (currentUser c))
              then insert (topic_id tp) (autoVotedTopics c) else autoVotedTopics c)"
proof -
  obtain w1 where i: "isCategoryAllowed s st (category_id tp) w
                        = (isCategoryAllowed_pre s st (category_id tp), w1)"
    and o: "outbox w1 = outbox w"
    by (rule isCategoryAllowed_cases)
  show "outbox (fst (topicCheck s st (w, c)))
           = (if shouldVote (auto_vote_enabled s) (isCategoryAllowed_pre s st) tp
                   (usr_id (currentUser c))
              then outbox w @ [topic_id tp] else outbox w)"
    using assms i o by (simp add: topicCheck_def shouldVote_def castVote_outbox)
  show "autoVotedTopics (snd (topicCheck s st (w, c)))
           = (if shouldVote (auto_vote_enabled s) (isCategoryAllowed_pre s st) tp
                   (usr_id (currentUser c))
              then insert (topic_id tp) (autoVotedTopics c) else autoVotedTopics c)"
    using assms i by (simp add: topicCheck_def shouldVote_def castVote_inserts)
qed

lemma checkAndVote_dbg_guard:
  assumes "topic_id tp \<notin> autoVotedTopics c"
  shows "outbox (fst (checkAndVote_dbg s (Some tp) src (w, c)))
           = (if shouldVote (auto_vote_enabled s) (isCategoryAllowed_ev s) tp
                   (usr_id (currentUser c))
              then outbox w @ [topic_id tp] else outbox w)"
    and "autoVotedTopics (snd (checkAndVote_dbg s (Some tp) src (w, c)))
           = (if shouldVote (auto_vote_enabled s) (isCategoryAllowed_ev s) tp
                   (usr_id (currentUser c))
              then insert (topic_id tp) (autoVotedTopics c) else autoVotedTopics c)"
proof -
  let ?w2 = "log_dbg s ''Topic data:'' (log_dbg s (''checkAndVote called from '' @ src) w)"
  obtain w3 where i: "isCategoryAllowed_dbg s (category_id tp) ?w2
                        = (isCategoryAllowed_ev s (category_id tp), w3)"
    and o: "outbox w3 = outbox ?w2"
    by (rule isCategoryAllowed_dbg_cases)
  show "outbox (fst (checkAndVote_dbg s (Some tp) src (w, c)))
           = (if shouldVote (auto_vote_enabled s) (isCategoryAllowed_ev s) tp
                   (usr_id (currentUser c))
              then outbox w @ [topic_id tp] else outbox w)"
    using assms i o by (simp add: checkAndVote_dbg_def shouldVote_def castVote_dbg_outbox Let_def)
  show "autoVotedTopics (snd (checkAndVote_dbg s (Some tp) src (w, c)))
           = (if shouldVote (auto_vote_enabled s) (isCategoryAllowed_ev s) tp
                   (usr_id (currentUser c))
              then insert (topic_id tp) (autoVotedTopics c) else autoVotedTopics c)"
    using assms i by (simp add: checkAndVote_dbg_def shouldVote_def castVote_dbg_inserts Let_def)
qed

text \<open>
  Claim C1. The check that guards a vote attempt is \<open>shouldVote\<close>: for a topic not yet
  attempted, the timer callback of part_002 (its condition together with the first check
  of \<^verbatim>\<open>castVote\<close>) and \<^verbatim>\<open>checkAndVote\<close> of the named draft send the vote request, and
  enter the topic in \<^verbatim>\<open>autoVotedTopics\<close>, exactly when the feature is enabled, the topic's
  creator is the acting user, the topic can be voted on, it is not voted on yet and the
  draft's category policy allows its category; in every other case nothing is sent.
  Both are total: there is no failing branch, and the named draft returns at once when
  there is no topic.
\<close>

theorem shouldVote_guards_request:
  assumes "model w = Some tp" and "topic_id tp \<notin> autoVotedTopics c"
  shows "outbox (fst (topicCheck s st (w, c)))
           = (if shouldVote (auto_vote_enabled s) (isCategoryAllowed_pre s st) tp
                   (usr_id (currentUser c))
              then outbox w @ [topic_id tp] else outbox w)
         \<and> (topic_id tp \<in> autoVotedTopics (snd (topicCheck s st (w, c))))
             = shouldVote (auto_vote_enabled s) (isCategoryAllowed_pre s st) tp
                 (usr_id (currentUser c))
         \<and> outbox (fst (checkAndVote_dbg s (Some tp) src (w, c)))
           = (if shouldVote (auto_vote_enabled s) (isCategoryAllowed_ev s) tp
                   (usr_id (currentUser c))
              then outbox w @ [topic_id tp] else outbox w)
         \<and> (topic_id tp \<in> autoVotedTopics (snd (checkAndVote_dbg s (Some tp) src (w, c))))
             = shouldVote (auto_vote_enabled s) (isCategoryAllowed_ev s) tp
                 (usr_id (currentUser c))
         \<and> outbox (fst (checkAndVote_dbg s None src (w, c))) = outbox w
         \<and> snd (checkAndVote_dbg s None src (w, c)) = c"
  using topicCheck_guard [OF assms, of s st] checkAndVote_dbg_guard [OF assms(2), of s src w] assms(2)
  by (simp add: checkAndVote_dbg_def Let_def)

theorem shouldVote_guards_request_witness:
  "model (exWorld\<lparr>model := Some exTopic\<rparr>) = Some exTopic
   \<and> topic_id exTopic \<notin> autoVotedTopics (newComp exUser)
   \<and> shouldVote True (isCategoryAllowed_pre (exSettings None) exSite) exTopic 42
   \<and> outbox (fst (topicCheck (exSettings None) exSite
                    (exWorld\<lparr>model := Some exTopic\<rparr>, newComp exUser))) = [1234]
   \<and> \<not> shouldVote True (isCategoryAllowed_pre (exSettings None) exSite)
          (exTopic\<lparr>user_voted := True\<rparr>) 42
   \<and> outbox (fst (topicCheck (exSettings None) exSite
                    (exWorld\<lparr>model := Some (exTopic\<lparr>user_voted := True\<rparr>)\<rparr>, newComp exUser))) = []"
proof -
  have h1: "model (exWorld\<lparr>model := Some exTopic\<rparr>) = Some exTopic" by simp
  have h1': "model (exWorld\<lparr>model := Some (exTopic\<lparr>user_voted := True\<rparr>)\<rparr>)
               = Some (exTopic\<lparr>user_voted := True\<rparr>)" by simp
  have h2: "topic_id exTopic \<notin> autoVotedTopics (newComp exUser)"
    by (simp add: newComp_def)
  have h2': "topic_id (exTopic\<lparr>user_voted := True\<rparr>) \<notin> autoVotedTopics (newComp exUser)"
    by (simp add: newComp_def)
  have a: "shouldVote True (isCategoryAllowed_pre (exSettings None) exSite) exTopic 42"
    by code_simp
  have b: "\<not> shouldVote True (isCategoryAllowed_pre (exSettings None) exSite)
               (exTopic\<lparr>user_voted := True\<rparr>) 42"
    by code_simp
  have e: "auto_vote_enabled (exSettings None)" "usr_id (currentUser (newComp exUser)) = 42"
    "outbox exWorld = []" "topic_id exTopic = 1234"
    by (simp_all add: exSettings_def newComp_def exUser_def exWorld_def exTopic_def)
  show ?thesis
    using shouldVote_guards_request [OF h1 h2, of "exSettings None" exSite "''onPageChange''"]
          shouldVote_guards_request [OF h1' h2', of "exSettings None" exSite "''onPageChange''"]
          h2 a b e
    by simp
qed

subsection \<open>The navigation trigger\<close>

lemma topicCheck_no_topic: "model w = None \<Longrightarrow> topicCheck s st (w, c) = (w, c)"
  by (simp add: topicCheck_def)

lemma topicCheck_calls_castVote:
  assumes "model w = Some tp" and "user_id tp = usr_id (currentUser c)" and "can_vote tp"
    and "\<not> user_voted tp" and "isCategoryAllowed_pre s st (category_id tp)"
  shows "topicCheck s st (w, c)
           = fst (castVote s (topic_id tp) ''onPageChange''
                    (log s (''Found unvoted own topic on page load: '' @ stringOfInt (topic_id tp))
                       (snd (isCategoryAllowed s st (category_id tp) w)), c))"
proof -
  obtain w1 where i: "isCategoryAllowed s st (category_id tp) w
                        = (isCategoryAllowed_pre s st (category_id tp), w1)"
    by (rule isCategoryAllowed_cases)
  show ?thesis
    using assms i by (simp add: topicCheck_def)
qed

lemma topicCheck_dbg_calls_checkAndVote:
  "model w = Some tp \<Longrightarrow>
     topicCheck_dbg s (w, c)
       = checkAndVote_dbg s (Some tp) ''onPageChange''
           (log_dbg s ''Topic controller model: found'' w, c)"
  by (simp add: topicCheck_dbg_def)

text \<open>
  Claim C7. In part_002 a page change whose URL does not match the topic pattern changes
  nothing; one whose URL matches starts one timer and does nothing else. When the timer
  fires and the topic controller has no model, nothing happens; when it has a topic
  created by the acting user, votable, not voted on and in an allowed category, the
  callback is exactly one call \<^verbatim>\<open>castVote(topic.id, "onPageChange")\<close>, and with the feature
  enabled and the topic not yet attempted the page change and its timer together send
  exactly one vote request, for that topic. In the named draft the matching page change
  likewise starts one timer, whose callback is exactly one call of \<^verbatim>\<open>checkAndVote\<close> when
  there is a topic and none when there is none; \<^verbatim>\<open>checkAndVote\<close> makes the enabled and
  duplicate checks itself before it calls \<^verbatim>\<open>castVote\<close>.
\<close>

theorem navigation_triggers_one_attempt:
  "(topicMatch url = None \<longrightarrow> handle s st (PageChange url) (w, c) = (w, c))
   \<and> (topicMatch url \<noteq> None \<longrightarrow>
        handle s st (PageChange url) (w, c) = (w, c\<lparr>timers := Suc (timers c)\<rparr>))
   \<and> handle s st TimerFired (w, c\<lparr>timers := Suc (timers c)\<rparr>) = topicCheck s st (w, c)
   \<and> (model w = None \<longrightarrow> topicCheck s st (w, c) = (w, c))
   \<and> (model w = Some tp \<and> user_id tp = usr_id (currentUser c) \<and> can_vote tp
        \<and> \<not> user_voted tp \<and> isCategoryAllowed_pre s st (category_id tp) \<longrightarrow>
        topicCheck s st (w, c)
          = fst (castVote s (topic_id tp) ''onPageChange''
                   (log s (''Found unvoted own topic on page load: '' @ stringOfInt (topic_id tp))
                      (snd (isCategoryAllowed s st (category_id tp) w)), c)))
   \<and> (topicMatch url \<noteq> None \<and> model w = Some tp \<and> user_id tp = usr_id (currentUser c)
        \<and> can_vote tp \<and> \<not> user_voted tp \<and> isCategoryAllowed_pre s st (category_id tp)
        \<and> auto_vote_enabled s \<and> topic_id tp \<notin> autoVotedTopics c \<longrightarrow>
        outbox (fst (run (handle s st) [PageChange url, TimerFired] (w, Some c)))
          = outbox w @ [topic_id tp])
   \<and> (topicMatch url = None \<longrightarrow>
        handle_dbg s (PageChange url) (w, c) = (log_dbg s (''onPageChange fired: '' @ url) w, c))
   \<and> (model w = None \<longrightarrow>
        topicCheck_dbg s (w, c) = (log_dbg s ''Topic controller model: NOT FOUND'' w, c))
   \<and> (model w = Some tp \<longrightarrow>
        topicCheck_dbg s (w, c)
          = checkAndVote_dbg s (Some tp) ''onPageChange''
              (log_dbg s ''Topic controller model: found'' w, c))
   \<and> (topicMatch url \<noteq> None \<and> model w = Some tp
        \<and> shouldVote (auto_vote_enabled s) (isCategoryAllowed_ev s) tp (usr_id (currentUser c))
        \<and> topic_id tp \<notin> autoVotedTopics c \<longrightarrow>
        outbox (fst (run (handle_dbg s) [PageChange url, TimerFired] (w, Some c)))
          = outbox w @ [topic_id tp])"
proof (intro conjI impI)
  assume "topicMatch url = None"
  then show "handle_dbg s (PageChange url) (w, c) = (log_dbg s (''onPageChange fired: '' @ url) w, c)"
    by (simp add: handle_dbg_def onPageChange_dbg_def)
next
  assume "model w = None"
  then show "topicCheck_dbg s (w, c) = (log_dbg s ''Topic controller model: NOT FOUND'' w, c)"
    by (simp add: topicCheck_dbg_def)
next
  assume "model w = Some tp"
  then show "topicCheck_dbg s (w, c)
               = checkAndVote_dbg s (Some tp) ''onPageChange''
                   (log_dbg s ''Topic controller model: found'' w, c)"
    by (rule topicCheck_dbg_calls_checkAndVote)
next
  assume a: "topicMatch url \<noteq> None \<and> model w = Some tp
        \<and> shouldVote (auto_vote_enabled s) (isCategoryAllowed_ev s) tp (usr_id (currentUser c))
        \<and> topic_id tp \<notin> autoVotedTopics c"
  then obtain ds where ds: "topicMatch url = Some ds" by auto
  let ?w1 = "log_dbg s (''On topic page, topic ID from URL: '' @ ds)
               (log_dbg s (''onPageChange fired: '' @ url) w)"
  have p: "handle_dbg s (PageChange url) (w, c) = (?w1, c\<lparr>timers := Suc (timers c)\<rparr>)"
    using ds by (simp add: handle_dbg_def onPageChange_dbg_def)
  have t: "handle_dbg s TimerFired (?w1, c\<lparr>timers := Suc (timers c)\<rparr>)
             = checkAndVote_dbg s (Some tp) ''onPageChange''
                 (log_dbg s ''Topic controller model: found'' ?w1, c)"
    using a by (simp add: handle_dbg_def topicCheck_dbg_def)
  have g: "outbox (fst (checkAndVote_dbg s (Some tp) ''onPageChange''
                          (log_dbg s ''Topic controller model: found'' ?w1, c)))
             = outbox w @ [topic_id tp]"
    using checkAndVote_dbg_guard(1) [of tp c s "''onPageChange''"
        "log_dbg s ''Topic controller model: found'' ?w1"] a
    by simp
  show "outbox (fst (run (handle_dbg s) [PageChange url, TimerFired] (w, Some c)))
          = outbox w @ [topic_id tp]"
    using p t g by (simp add: step_Some hostStep_def)
next
  show "handle s st TimerFired (w, c\<lparr>timers := Suc (timers c)\<rparr>) = topicCheck s st (w, c)"
    by (simp add: handle_def)
next
  assume "topicMatch url = None"
  then show "handle s st (PageChange url) (w, c) = (w, c)"
    by (simp add: handle_def onPageChange_def)
next
  assume "topicMatch url \<noteq> None"
  then show "handle s st (PageChange url) (w, c) = (w, c\<lparr>timers := Suc (timers c)\<rparr>)"
    by (auto simp: handle_def onPageChange_def)
next
  assume "model w = None"
  then show "topicCheck s st (w, c) = (w, c)"
    by (rule topicCheck_no_topic)
next
  assume "model w = Some tp \<and> user_id tp = usr_id (currentUser c) \<and> can_vote tp
            \<and> \<not> user_voted tp \<and> isCategoryAllowed_pre s st (category_id tp)"
  then show "topicCheck s st (w, c)
               = fst (castVote s (topic_id tp) ''onPageChange''
                        (log s (''Found unvoted own topic on page load: ''
                                @ stringOfInt (topic_id tp))
                           (snd (isCategoryAllowed s st (category_id tp) w)), c))"
    using topicCheck_calls_castVote [of w tp c s st] by simp
next
  assume a: "topicMatch url \<noteq> None \<and> model w = Some tp \<and> user_id tp = usr_id (currentUser c)
        \<and> can_vote tp \<and> \<not> user_voted tp \<and> isCategoryAllowed_pre s st (category_id tp)
        \<and> auto_vote_enabled s \<and> topic_id tp \<notin> autoVotedTopics c"
  have p: "handle s st (PageChange url) (w, c) = (w, c\<lparr>timers := Suc (timers c)\<rparr>)"
    using a by (auto simp: handle_def onPageChange_def)
  have t: "handle s st TimerFired (w, c\<lparr>timers := Suc (timers c)\<rparr>) = topicCheck s st (w, c)"
    by (simp add: handle_def)
  have g: "outbox (fst (topicCheck s st (w, c))) = outbox w @ [topic_id tp]"
    using topicCheck_guard(1) [of w tp c s st] a by (simp add: shouldVote_def)
  show "outbox (fst (run (handle s st) [PageChange url, TimerFired] (w, Some c)))
          = outbox w @ [topic_id tp]"
    using p t g by (simp add: step_Some hostStep_def)
qed

theorem navigation_triggers_one_attempt_witness:
  "topicMatch ''/t/some-slug/1234'' = Some ''1234''
   \<and> parseInt ''1234'' = Some (topic_id exTopic)
   \<and> topicMatch ''/latest'' = None
   \<and> handle (exSettings None) exSite (PageChange ''/latest'') (exWorld, newComp exUser)
       = (exWorld, newComp exUser)
   \<and> outbox (fst (run (handle (exSettings None) exSite) [PageChange ''/t/some-slug/1234'', TimerFired]
                    (exWorld\<lparr>model := Some exTopic\<rparr>, Some (newComp exUser)))) = [1234]
   \<and> outbox (fst (run (handle (exSettings None) exSite) [PageChange ''/t/some-slug/1234'', TimerFired]
                    (exWorld, Some (newComp exUser)))) = []"
proof -
  have m: "topicMatch ''/t/some-slug/1234'' = Some ''1234''" "topicMatch ''/latest'' = None"
    "parseInt ''1234'' = Some (topic_id exTopic)"
    by code_simp+
  have h: "model (exWorld\<lparr>model := Some exTopic\<rparr>) = Some exTopic"
    "user_id exTopic = usr_id (currentUser (newComp exUser))" "can_vote exTopic"
    "\<not> user_voted exTopic" "auto_vote_enabled (exSettings None)"
    "topic_id exTopic \<notin> autoVotedTopics (newComp exUser)" "topic_id exTopic = 1234"
    "outbox exWorld = []" "model exWorld = None"
    by (simp_all add: exWorld_def exTopic_def newComp_def exUser_def exSettings_def)
  have i: "isCategoryAllowed_pre (exSettings None) exSite (category_id exTopic)"
    by code_simp
  have n: "outbox (fst (run (handle (exSettings None) exSite)
                          [PageChange ''/t/some-slug/1234'', TimerFired]
                          (exWorld, Some (newComp exUser)))) = []"
    using navigation_triggers_one_attempt [where url = "''/t/some-slug/1234''"
        and s = "exSettings None" and st = exSite and w = exWorld and c = "newComp exUser"] m h
    by (simp add: step_Some hostStep_def)
  show ?thesis
    using navigation_triggers_one_attempt [where url = "''/t/some-slug/1234''"
        and s = "exSettings None" and st = exSite and w = "exWorld\<lparr>model := Some exTopic\<rparr>"
        and c = "newComp exUser" and tp = exTopic]
      navigation_triggers_one_attempt [where url = "''/latest''"
        and s = "exSettings None" and st = exSite and w = exWorld and c = "newComp exUser"]
      m h i n
    by simp
qed

subsection \<open>The debug setting\<close>

lemma mute_simps [simp]:
  "mute (log s m w) = mute w"
  "mute (log_dbg s m w) = mute w"
  "mute (w\<lparr>console := k\<rparr>) = mute w"
  "mute (w\<lparr>outbox := ob\<rparr>) = (mute w)\<lparr>outbox := ob\<rparr>"
  "mute (w\<lparr>page := d\<rparr>) = (mute w)\<lparr>page := d\<rparr>"
  "mute (w\<lparr>model := md\<rparr>) = (mute w)\<lparr>model := md\<rparr>"
  "outbox (mute w) = outbox w" "page (mute w) = page w" "model (mute w) = model w"
  by (simp_all add: mute_def log_def log_dbg_def)

lemma mute_updateVoteUI [simp]:
  "mute (updateVoteUI s n w) = (mute w)\<lparr>page := updateVoteUI_pre n (page w)\<rparr>"
proof -
  have "updateVoteUI s n w = w\<lparr>page := updateVoteUI_pre n (page w),
                               console := console (updateVoteUI s n w)\<rparr>"
    by (cases "voteCountEl (page w)"; cases "voteButton (page w)"; cases "votingWrapper (page w)")
       (simp_all add: updateVoteUI_def updateVoteUI_pre_def log_def)
  then have "mute (updateVoteUI s n w)
               = mute (w\<lparr>page := updateVoteUI_pre n (page w),
                         console := console (updateVoteUI s n w)\<rparr>)"
    by simp
  then show ?thesis by simp
qed

lemma mute_hostStep [simp]: "mute (hostStep ev w) = hostStep ev (mute w)"
  by (cases ev) (simp_all add: hostStep_def)

lemma hostStep_console [simp]: "hostStep ev (w\<lparr>console := k\<rparr>) = (hostStep ev w)\<lparr>console := k\<rparr>"
  by (cases ev) (simp_all add: hostStep_def)

lemma mute_eq: "mute w' = mute w \<Longrightarrow> w' = w\<lparr>console := console w'\<rparr>"
  by (cases w; cases w') (simp add: mute_def)

lemma mute_isCategoryAllowed [simp]:
  "mute (snd (isCategoryAllowed s st cat w)) = mute w"
  "mute (snd (isCategoryAllowed_dbg s cat w)) = mute w"
  by (auto simp: isCategoryAllowed_def isCategoryAllowed_dbg_def Let_def split: option.splits)

lemma debug_free_policy [simp]:
  "isCategoryAllowed_pre (s\<lparr>auto_vote_debug_mode := b\<rparr>) st cat = isCategoryAllowed_pre s st cat"
  "isCategoryAllowed_ev (s\<lparr>auto_vote_debug_mode := b\<rparr>) cat = isCategoryAllowed_ev s cat"
  by (simp_all add: isCategoryAllowed_pre_def isCategoryAllowed_ev_def)

text \<open>
  The shape of the argument, for each function \<open>f\<close> of a draft: the result of \<open>f\<close> with the
  console blanked does not depend on the debug setting, nor on the console it started with.
\<close>

lemma castVote_mute:
  "mute (fst (fst (castVote (s\<lparr>auto_vote_debug_mode := b\<rparr>) x src (w\<lparr>console := k\<rparr>, c))))
     = mute (fst (fst (castVote s x src (w, c))))"
  "snd (fst (castVote (s\<lparr>auto_vote_debug_mode := b\<rparr>) x src (w\<lparr>console := k\<rparr>, c)))
     = snd (fst (castVote s x src (w, c)))"
  "snd (castVote (s\<lparr>auto_vote_debug_mode := b\<rparr>) x src (w\<lparr>console := k\<rparr>, c))
     = snd (castVote s x src (w, c))"
  by (simp_all add: castVote_def)

lemma castVoteResume_mute:
  "mute (fst (fst (castVoteResume (s\<lparr>auto_vote_debug_mode := b\<rparr>) x src res (w\<lparr>console := k\<rparr>, c))))
     = mute (fst (fst (castVoteResume s x src res (w, c))))"
  "snd (fst (castVoteResume (s\<lparr>auto_vote_debug_mode := b\<rparr>) x src res (w\<lparr>console := k\<rparr>, c)))
     = snd (fst (castVoteResume s x src res (w, c)))"
  "snd (castVoteResume (s\<lparr>auto_vote_debug_mode := b\<rparr>) x src res (w\<lparr>console := k\<rparr>, c))
     = snd (castVoteResume s x src res (w, c))"
  by (simp_all add: castVoteResume_def Let_def split: ajax_result.splits option.splits)

lemma isCategoryAllowed_mute_cases:
  obtains w1 w1' where
    "isCategoryAllowed s st cat w = (isCategoryAllowed_pre s st cat, w1)"
    "isCategoryAllowed (s\<lparr>auto_vote_debug_mode := b\<rparr>) st cat (w\<lparr>console := k\<rparr>)
       = (isCategoryAllowed_pre s st cat, w1')"
    "mute w1' = mute w1"
proof -
  have a: "isCategoryAllowed s st cat w
             = (isCategoryAllowed_pre s st cat, snd (isCategoryAllowed s st cat w))"
    by (simp add: prod_eq_iff fst_isCategoryAllowed)
  have b: "isCategoryAllowed (s\<lparr>auto_vote_debug_mode := b\<rparr>) st cat (w\<lparr>console := k\<rparr>)
             = (isCategoryAllowed_pre s st cat,
                snd (isCategoryAllowed (s\<lparr>auto_vote_debug_mode := b\<rparr>) st cat (w\<lparr>console := k\<rparr>)))"
    by (simp add: prod_eq_iff fst_isCategoryAllowed)
  show ?thesis
    by (rule that [OF a b]) simp
qed

lemma isCategoryAllowed_dbg_mute_cases:
  obtains w1 w1' where
    "isCategoryAllowed_dbg s cat w = (isCategoryAllowed_ev s cat, w1)"
    "isCategoryAllowed_dbg (s\<lparr>auto_vote_debug_mode := b\<rparr>) cat (w\<lparr>console := k\<rparr>)
       = (isCategoryAllowed_ev s cat, w1')"
    "mute w1' = mute w1"
proof -
  have a: "isCategoryAllowed_dbg s cat w
             = (isCategoryAllowed_ev s cat, snd (isCategoryAllowed_dbg s cat w))"
    by (simp add: prod_eq_iff fst_isCategoryAllowed_dbg)
  have b: "isCategoryAllowed_dbg (s\<lparr>auto_vote_debug_mode := b\<rparr>) cat (w\<lparr>console := k\<rparr>)
             = (isCategoryAllowed_ev s cat,
                snd (isCategoryAllowed_dbg (s\<lparr>auto_vote_debug_mode := b\<rparr>) cat (w\<lparr>console := k\<rparr>)))"
    by (simp add: prod_eq_iff fst_isCategoryAllowed_dbg)
  show ?thesis
    by (rule that [OF a b]) simp
qed

text \<open>Two worlds that agree up to the console are one world with two consoles.\<close>

lemma castVote_mute_rel:
  assumes "mute w' = mute w"
  shows "mute (fst (fst (castVote (s\<lparr>auto_vote_debug_mode := b\<rparr>) x src (w', c))))
           = mute (fst (fst (castVote s x src (w, c))))"
    and "snd (fst (castVote (s\<lparr>auto_vote_debug_mode := b\<rparr>) x src (w', c)))
           = snd (fst (castVote s x src (w, c)))"
  using castVote_mute(1,2) [where s = s and b = b and x = x and src = src and w = w
                                and k = "console w'" and c = c]
        mute_eq [OF assms]
  by simp_all

lemma topicCheck_mute:
  "mute (fst (topicCheck (s\<lparr>auto_vote_debug_mode := b\<rparr>) st (w\<lparr>console := k\<rparr>, c)))
     = mute (fst (topicCheck s st (w, c)))"
  "snd (topicCheck (s\<lparr>auto_vote_debug_mode := b\<rparr>) st (w\<lparr>console := k\<rparr>, c))
     = snd (topicCheck s st (w, c))"
proof -
  show "mute (fst (topicCheck (s\<lparr>auto_vote_debug_mode := b\<rparr>) st (w\<lparr>console := k\<rparr>, c)))
          = mute (fst (topicCheck s st (w, c)))"
  proof (cases "model w")
    case None
    then show ?thesis by (simp add: topicCheck_def)
  next
    case (Some tp)
    obtain w1 w1' where i:
      "isCategoryAllowed s st (category_id tp) w = (isCategoryAllowed_pre s st (category_id tp), w1)"
      "isCategoryAllowed (s\<lparr>auto_vote_debug_mode := b\<rparr>) st (category_id tp) (w\<lparr>console := k\<rparr>)
         = (isCategoryAllowed_pre s st (category_id tp), w1')"
      "mute w1' = mute w1"
      by (rule isCategoryAllowed_mute_cases)
    show ?thesis
      using Some i
        castVote_mute_rel(1) [where w' = "log (s\<lparr>auto_vote_debug_mode := b\<rparr>)
              (''Found unvoted own topic on page load: '' @ stringOfInt (topic_id tp)) w1'"
            and w = "log s (''Found unvoted own topic on page load: ''
                            @ stringOfInt (topic_id tp)) w1"
            and s = s and b = b and x = "topic_id tp" and src = "''onPageChange''" and c = c]
      by (simp add: topicCheck_def)
  qed
  show "snd (topicCheck (s\<lparr>auto_vote_debug_mode := b\<rparr>) st (w\<lparr>console := k\<rparr>, c))
          = snd (topicCheck s st (w, c))"
  proof (cases "model w")
    case None
    then show ?thesis by (simp add: topicCheck_def)
  next
    case (Some tp)
    obtain w1 w1' where i:
      "isCategoryAllowed s st (category_id tp) w = (isCategoryAllowed_pre s st (category_id tp), w1)"
      "isCategoryAllowed (s\<lparr>auto_vote_debug_mode := b\<rparr>) st (category_id tp) (w\<lparr>console := k\<rparr>)
         = (isCategoryAllowed_pre s st (category_id tp), w1')"
      "mute w1' = mute w1"
      by (rule isCategoryAllowed_mute_cases)
    show ?thesis
      using Some i
        castVote_mute_rel(2) [where w' = "log (s\<lparr>auto_vote_debug_mode := b\<rparr>)
              (''Found unvoted own topic on page load: '' @ stringOfInt (topic_id tp)) w1'"
            and w = "log s (''Found unvoted own topic on page load: ''
                            @ stringOfInt (topic_id tp)) w1"
            and s = s and b = b and x = "topic_id tp" and src = "''onPageChange''" and c = c]
      by (simp add: topicCheck_def)
  qed
qed

lemma handle_mute:
  "mute (fst (handle (s\<lparr>auto_vote_debug_mode := b\<rparr>) st ev (w\<lparr>console := k\<rparr>, c)))
     = mute (fst (handle s st ev (w, c)))
   \<and> snd (handle (s\<lparr>auto_vote_debug_mode := b\<rparr>) st ev (w\<lparr>console := k\<rparr>, c))
     = snd (handle s st ev (w, c))"
proof (cases ev)
  case (PageChange url)
  then show ?thesis by (simp add: handle_def onPageChange_def split: option.splits)
next
  case TimerFired
  then show ?thesis by (simp add: handle_def topicCheck_mute)
next
  case (VoteSettled x res)
  then show ?thesis by (simp add: handle_def castVoteResume_mute split: option.splits)
qed (simp_all add: handle_def)

lemma run_mute:
  assumes "\<And>ev w k c. mute (fst (h' ev (w\<lparr>console := k\<rparr>, c))) = mute (fst (h ev (w, c)))
                          \<and> snd (h' ev (w\<lparr>console := k\<rparr>, c)) = snd (h ev (w, c))"
    and "mute w' = mute w"
  shows "muteSession (run h' evs (w', co)) = muteSession (run h evs (w, co))"
  using assms(2)
proof (induction evs arbitrary: w' w co)
  case Nil
  then show ?case by (simp add: muteSession_def)
next
  case (Cons ev evs)
  have e: "w' = w\<lparr>console := console w'\<rparr>"
    by (rule mute_eq [OF Cons.prems])
  show ?case
  proof (cases co)
    case None
    have "mute (hostStep ev w') = mute (hostStep ev w)"
      using Cons.prems by simp
    then show ?thesis
      using None Cons.IH [of "hostStep ev w'" "hostStep ev w" None] by simp
  next
    case (Some c)
    have s1: "mute (fst (h' ev (hostStep ev w', c))) = mute (fst (h ev (hostStep ev w, c)))"
      and s2: "snd (h' ev (hostStep ev w', c)) = snd (h ev (hostStep ev w, c))"
      using assms(1) [where ev = ev and w = "hostStep ev w" and k = "console w'" and c = c] e
      by (metis hostStep_console)+
    show ?thesis
      using Some s2
        Cons.IH [OF s1, of "Some (snd (h ev (hostStep ev w, c)))"]
      by (simp add: step_Some)
  qed
qed

lemma case_isCategoryAllowed_dbg:
  "(case isCategoryAllowed_dbg s cat w of (a, w1) \<Rightarrow> F a w1)
     = F (isCategoryAllowed_ev s cat) (snd (isCategoryAllowed_dbg s cat w))"
  by (simp add: case_prod_beta fst_isCategoryAllowed_dbg)

lemma castVote_dbg_mute:
  "mute (fst (fst (castVote_dbg (s\<lparr>auto_vote_debug_mode := b\<rparr>) x src (w', c))))
     = (if x \<in> autoVotedTopics c then mute w' else (mute w')\<lparr>outbox := outbox w' @ [x]\<rparr>)"
  "snd (fst (castVote_dbg (s\<lparr>auto_vote_debug_mode := b\<rparr>) x src (w', c)))
     = snd (fst (castVote_dbg s x src (w, c)))"
  "snd (castVote_dbg (s\<lparr>auto_vote_debug_mode := b\<rparr>) x src (w', c))
     = snd (castVote_dbg s x src (w, c))"
  "mute (fst (fst (castVote_dbg s x src (w', c))))
     = (if x \<in> autoVotedTopics c then mute w' else (mute w')\<lparr>outbox := outbox w' @ [x]\<rparr>)"
  by (simp_all add: castVote_dbg_def Let_def)

lemma castVoteResume_dbg_mute:
  "mute (fst (fst (castVoteResume_dbg (s\<lparr>auto_vote_debug_mode := b\<rparr>) x res (w\<lparr>console := k\<rparr>, c))))
     = mute (fst (fst (castVoteResume_dbg s x res (w, c))))"
  "snd (castVoteResume_dbg (s\<lparr>auto_vote_debug_mode := b\<rparr>) x res (w\<lparr>console := k\<rparr>, c))
     = snd (castVoteResume_dbg s x res (w, c))"
  by (simp_all add: castVoteResume_dbg_def Let_def split: ajax_result.splits)

lemma castVote_dbg_comp:
  "snd (fst (castVote_dbg s x src (w, c)))
     = (if x \<in> autoVotedTopics c then c
        else c\<lparr>autoVotedTopics := insert x (autoVotedTopics c),
               awaiting := awaiting c @ [(x, src)]\<rparr>)"
  by (simp add: castVote_dbg_def Let_def)

lemma castVote_comp:
  "snd (fst (castVote s x src (w, c)))
     = (if auto_vote_enabled s \<and> x \<notin> autoVotedTopics c
        then c\<lparr>autoVotedTopics := insert x (autoVotedTopics c),
               awaiting := awaiting c @ [(x, src)]\<rparr>
        else c)"
  by (simp add: castVote_def)

lemma checkAndVote_dbg_mute:
  "mute (fst (checkAndVote_dbg (s\<lparr>auto_vote_debug_mode := b\<rparr>) tp src (w\<lparr>console := k\<rparr>, c)))
     = mute (fst (checkAndVote_dbg s tp src (w, c)))"
  "snd (checkAndVote_dbg (s\<lparr>auto_vote_debug_mode := b\<rparr>) tp src (w\<lparr>console := k\<rparr>, c))
     = snd (checkAndVote_dbg s tp src (w, c))"
  by (simp_all add: checkAndVote_dbg_def Let_def case_isCategoryAllowed_dbg castVote_dbg_mute(1,4)
                    castVote_dbg_comp
               split: option.splits)

lemma topicCheck_dbg_mute:
  "mute (fst (topicCheck_dbg (s\<lparr>auto_vote_debug_mode := b\<rparr>) (w\<lparr>console := k\<rparr>, c)))
     = mute (fst (topicCheck_dbg s (w, c)))"
  "snd (topicCheck_dbg (s\<lparr>auto_vote_debug_mode := b\<rparr>) (w\<lparr>console := k\<rparr>, c))
     = snd (topicCheck_dbg s (w, c))"
proof -
  have l: "log_dbg (s\<lparr>auto_vote_debug_mode := b\<rparr>) ''Topic controller model: found''
             (w\<lparr>console := k\<rparr>)
           = (log_dbg s ''Topic controller model: found'' w)\<lparr>console :=
                k @ [ConsoleLog ''Topic controller model: found'']\<rparr>"
    by (simp add: log_dbg_def DEBUG_def)
  show "mute (fst (topicCheck_dbg (s\<lparr>auto_vote_debug_mode := b\<rparr>) (w\<lparr>console := k\<rparr>, c)))
          = mute (fst (topicCheck_dbg s (w, c)))"
    by (cases "model w") (simp_all add: topicCheck_dbg_def l checkAndVote_dbg_mute)
  show "snd (topicCheck_dbg (s\<lparr>auto_vote_debug_mode := b\<rparr>) (w\<lparr>console := k\<rparr>, c))
          = snd (topicCheck_dbg s (w, c))"
    by (cases "model w") (simp_all add: topicCheck_dbg_def l checkAndVote_dbg_mute)
qed

lemma appEvent_dbg_mute:
  "mute (fst (appEvent_dbg (s\<lparr>auto_vote_debug_mode := b\<rparr>) nm data (w\<lparr>console := k\<rparr>, c)))
     = mute (fst (appEvent_dbg s nm data (w, c)))"
  "snd (appEvent_dbg (s\<lparr>auto_vote_debug_mode := b\<rparr>) nm data (w\<lparr>console := k\<rparr>, c))
     = snd (appEvent_dbg s nm data (w, c))"
  by (simp_all add: appEvent_dbg_def Let_def castVote_dbg_mute(1,4) castVote_dbg_comp
               split: option.splits)

lemma composerAfterSave_dbg_mute:
  "mute (fst (composerAfterSave_dbg (s\<lparr>auto_vote_debug_mode := b\<rparr>) n cat r (w\<lparr>console := k\<rparr>, c)))
     = mute (fst (composerAfterSave_dbg s n cat r (w, c)))"
  "snd (composerAfterSave_dbg (s\<lparr>auto_vote_debug_mode := b\<rparr>) n cat r (w\<lparr>console := k\<rparr>, c))
     = snd (composerAfterSave_dbg s n cat r (w, c))"
  by (simp_all add: composerAfterSave_dbg_def Let_def case_isCategoryAllowed_dbg
                    castVote_dbg_mute(1,4) castVote_dbg_comp
               split: option.splits)

lemma ajaxDone_dbg_mute:
  "mute (fst (ajaxDone_dbg (s\<lparr>auto_vote_debug_mode := b\<rparr>) m url p (w\<lparr>console := k\<rparr>, c)))
     = mute (fst (ajaxDone_dbg s m url p (w, c)))"
  "snd (ajaxDone_dbg (s\<lparr>auto_vote_debug_mode := b\<rparr>) m url p (w\<lparr>console := k\<rparr>, c))
     = snd (ajaxDone_dbg s m url p (w, c))"
  by (simp_all add: ajaxDone_dbg_def Let_def split: option.splits)

lemma handle_dbg_mute:
  "mute (fst (handle_dbg (s\<lparr>auto_vote_debug_mode := b\<rparr>) ev (w\<lparr>console := k\<rparr>, c)))
     = mute (fst (handle_dbg s ev (w, c)))
   \<and> snd (handle_dbg (s\<lparr>auto_vote_debug_mode := b\<rparr>) ev (w\<lparr>console := k\<rparr>, c))
     = snd (handle_dbg s ev (w, c))"
proof (cases ev)
  case (PageChange url)
  then show ?thesis
    by (simp add: handle_dbg_def onPageChange_dbg_def Let_def split: option.splits)
next
  case TimerFired
  then show ?thesis by (simp add: handle_dbg_def topicCheck_dbg_mute)
next
  case InterceptTimerFired
  then show ?thesis
    by (simp add: handle_dbg_def castVote_dbg_mute(1,4) castVote_dbg_comp split: list.splits)
next
  case (VoteSettled x res)
  then show ?thesis
    using castVoteResume_dbg_keeps(2)
    by (simp add: handle_dbg_def castVoteResume_dbg_mute split: option.splits)
next
  case (AppEvent nm data)
  then show ?thesis by (simp add: handle_dbg_def appEvent_dbg_mute)
next
  case (ComposerSaved n cat r)
  then show ?thesis by (simp add: handle_dbg_def composerAfterSave_dbg_mute)
next
  case (AjaxDone m url p)
  then show ?thesis by (simp add: handle_dbg_def ajaxDone_dbg_mute)
qed (simp_all add: handle_dbg_def)

lemma castVoteResume_ev_mute:
  "mute (fst (fst (castVoteResume_ev (s\<lparr>auto_vote_debug_mode := b\<rparr>) x res (w\<lparr>console := k\<rparr>, c))))
     = mute (fst (fst (castVoteResume_ev s x res (w, c))))"
  by (simp add: castVoteResume_ev_def split: ajax_result.splits)

lemma castVote_mute_form:
  "mute (fst (fst (castVote s x src (w', c))))
     = (if auto_vote_enabled s \<and> x \<notin> autoVotedTopics c
        then (mute w')\<lparr>outbox := outbox w' @ [x]\<rparr> else mute w')"
  by (simp add: castVote_def)

lemma topicCreated_ev_mute:
  "mute (fst (topicCreated_ev (s\<lparr>auto_vote_debug_mode := b\<rparr>) data (w\<lparr>console := k\<rparr>, c)))
     = mute (fst (topicCreated_ev s data (w, c)))"
  "snd (topicCreated_ev (s\<lparr>auto_vote_debug_mode := b\<rparr>) data (w\<lparr>console := k\<rparr>, c))
     = snd (topicCreated_ev s data (w, c))"
  by (simp_all add: topicCreated_ev_def Let_def castVote_mute_form castVote_comp
               split: option.splits)

lemma topicCheck_ev_mute:
  "mute (fst (topicCheck_ev (s\<lparr>auto_vote_debug_mode := b\<rparr>) (w\<lparr>console := k\<rparr>, c)))
     = mute (fst (topicCheck_ev s (w, c)))"
  "snd (topicCheck_ev (s\<lparr>auto_vote_debug_mode := b\<rparr>) (w\<lparr>console := k\<rparr>, c))
     = snd (topicCheck_ev s (w, c))"
  by (simp_all add: topicCheck_ev_def castVote_mute_form castVote_comp split: option.splits)

lemma handle_ev_mute:
  "mute (fst (handle_ev (s\<lparr>auto_vote_debug_mode := b\<rparr>) ev (w\<lparr>console := k\<rparr>, c)))
     = mute (fst (handle_ev s ev (w, c)))
   \<and> snd (handle_ev (s\<lparr>auto_vote_debug_mode := b\<rparr>) ev (w\<lparr>console := k\<rparr>, c))
     = snd (handle_ev s ev (w, c))"
proof (cases ev)
  case (PageChange url)
  then show ?thesis by (simp add: handle_ev_def onPageChange_def split: option.splits)
next
  case TimerFired
  then show ?thesis by (simp add: handle_ev_def topicCheck_ev_mute)
next
  case (VoteSettled x res)
  then show ?thesis
    by (simp add: handle_ev_def castVoteResume_ev_mute split: option.splits)
next
  case (AppEvent nm data)
  then show ?thesis by (simp add: handle_ev_def topicCreated_ev_mute)
qed (simp_all add: handle_ev_def)

text \<open>
  Claim C9. Two runs that differ only in \<^verbatim>\<open>auto_vote_debug_mode\<close> agree on everything but
  the console: after the same events the vote requests sent, the page, the topic model
  and the whole closure state (with \<^verbatim>\<open>autoVotedTopics\<close>) are equal, in part_002, in the
  named draft and in part_000, and every \<^verbatim>\<open>castVote\<close> call returns the same value. In the
  named draft, where \<^verbatim>\<open>DEBUG\<close> is true, even \<^verbatim>\<open>log\<close> does not depend on the setting.
\<close>

theorem debug_mode_only_logs:
  "muteSession (run (handle (s\<lparr>auto_vote_debug_mode := b\<rparr>) st) evs
                  (initializer (s\<lparr>auto_vote_debug_mode := b\<rparr>) cu w))
     = muteSession (run (handle s st) evs (initializer s cu w))
   \<and> muteSession (run (handle_dbg (s\<lparr>auto_vote_debug_mode := b\<rparr>)) evs
                    (initializer_dbg (s\<lparr>auto_vote_debug_mode := b\<rparr>) cu w))
     = muteSession (run (handle_dbg s) evs (initializer_dbg s cu w))
   \<and> muteSession (run (handle_ev (s\<lparr>auto_vote_debug_mode := b\<rparr>)) evs
                    (initializer (s\<lparr>auto_vote_debug_mode := b\<rparr>) cu w))
     = muteSession (run (handle_ev s) evs (initializer s cu w))
   \<and> snd (castVote (s\<lparr>auto_vote_debug_mode := b\<rparr>) t src (w, c)) = snd (castVote s t src (w, c))
   \<and> snd (castVoteResume (s\<lparr>auto_vote_debug_mode := b\<rparr>) t src res (w, c))
       = snd (castVoteResume s t src res (w, c))
   \<and> snd (castVote_dbg (s\<lparr>auto_vote_debug_mode := b\<rparr>) t src (w, c))
       = snd (castVote_dbg s t src (w, c))
   \<and> snd (castVoteResume_dbg (s\<lparr>auto_vote_debug_mode := b\<rparr>) t res (w, c))
       = snd (castVoteResume_dbg s t res (w, c))
   \<and> log_dbg (s\<lparr>auto_vote_debug_mode := b\<rparr>) m w = log_dbg s m w"
proof (intro conjI)
  have i: "snd (initializer (s\<lparr>auto_vote_debug_mode := b\<rparr>) cu w) = snd (initializer s cu w)"
    "mute (fst (initializer (s\<lparr>auto_vote_debug_mode := b\<rparr>) cu w)) = mute (fst (initializer s cu w))"
    by (cases cu; simp add: initializer_def)+
  have j: "snd (initializer_dbg (s\<lparr>auto_vote_debug_mode := b\<rparr>) cu w) = snd (initializer_dbg s cu w)"
    "mute (fst (initializer_dbg (s\<lparr>auto_vote_debug_mode := b\<rparr>) cu w))
       = mute (fst (initializer_dbg s cu w))"
    by (cases cu; simp add: initializer_dbg_def Let_def)+
  show "muteSession (run (handle (s\<lparr>auto_vote_debug_mode := b\<rparr>) st) evs
                  (initializer (s\<lparr>auto_vote_debug_mode := b\<rparr>) cu w))
     = muteSession (run (handle s st) evs (initializer s cu w))"
    using run_mute [where h' = "handle (s\<lparr>auto_vote_debug_mode := b\<rparr>) st" and h = "handle s st"
        and w' = "fst (initializer (s\<lparr>auto_vote_debug_mode := b\<rparr>) cu w)"
        and w = "fst (initializer s cu w)" and co = "snd (initializer s cu w)" and evs = evs,
        OF handle_mute i(2)] i(1)
    by (metis prod.collapse)
  show "muteSession (run (handle_dbg (s\<lparr>auto_vote_debug_mode := b\<rparr>)) evs
                    (initializer_dbg (s\<lparr>auto_vote_debug_mode := b\<rparr>) cu w))
     = muteSession (run (handle_dbg s) evs (initializer_dbg s cu w))"
    using run_mute [where h' = "handle_dbg (s\<lparr>auto_vote_debug_mode := b\<rparr>)" and h = "handle_dbg s"
        and w' = "fst (initializer_dbg (s\<lparr>auto_vote_debug_mode := b\<rparr>) cu w)"
        and w = "fst (initializer_dbg s cu w)" and co = "snd (initializer_dbg s cu w)" and evs = evs,
        OF handle_dbg_mute j(2)] j(1)
    by (metis prod.collapse)
  show "muteSession (run (handle_ev (s\<lparr>auto_vote_debug_mode := b\<rparr>)) evs
                    (initializer (s\<lparr>auto_vote_debug_mode := b\<rparr>) cu w))
     = muteSession (run (handle_ev s) evs (initializer s cu w))"
    using run_mute [where h' = "handle_ev (s\<lparr>auto_vote_debug_mode := b\<rparr>)" and h = "handle_ev s"
        and w' = "fst (initializer (s\<lparr>auto_vote_debug_mode := b\<rparr>) cu w)"
        and w = "fst (initializer s cu w)" and co = "snd (initializer s cu w)" and evs = evs,
        OF handle_ev_mute i(2)] i(1)
    by (metis prod.collapse)
  show "snd (castVote (s\<lparr>auto_vote_debug_mode := b\<rparr>) t src (w, c)) = snd (castVote s t src (w, c))"
    by (simp add: castVote_def)
  show "snd (castVoteResume (s\<lparr>auto_vote_debug_mode := b\<rparr>) t src res (w, c))
       = snd (castVoteResume s t src res (w, c))"
    by (simp add: castVoteResume_def Let_def split: ajax_result.splits option.splits)
  show "snd (castVote_dbg (s\<lparr>auto_vote_debug_mode := b\<rparr>) t src (w, c))
       = snd (castVote_dbg s t src (w, c))"
    by (simp add: castVote_dbg_def Let_def)
  show "snd (castVoteResume_dbg (s\<lparr>auto_vote_debug_mode := b\<rparr>) t res (w, c))
       = snd (castVoteResume_dbg s t res (w, c))"
    by (simp add: castVoteResume_dbg_def Let_def split: ajax_result.splits)
  show "log_dbg (s\<lparr>auto_vote_debug_mode := b\<rparr>) m w = log_dbg s m w"
    by (simp add: log_dbg_def DEBUG_def)
qed

subsection \<open>No user, no component\<close>

lemma hostRun_keeps [simp]:
  "outbox (hostRun evs w) = outbox w" "console (hostRun evs w) = console w"
  unfolding hostRun_def
  by (induction evs arbitrary: w; simp add: hostStep_def split: event.splits)+

text \<open>
  Claim C10. When the current-user lookup returns nothing, the initializer of every draft
  returns before it creates \<^verbatim>\<open>autoVotedTopics\<close> or registers a handler: there is no closure
  state, and the world is unchanged (the named draft has written its start-up lines to the
  console by then). Whatever events follow, the session is what the host alone makes of
  it: no vote request is sent, no closure state appears, and the page changes only where
  the host renders it; page changes, application events, composer saves, AJAX
  completions, timers and settled requests leave the world as it is.
\<close>

theorem no_user_no_effect:
  "initializer s None w = (w, None)
   \<and> initializer_pre None w = (w, None)
   \<and> snd (initializer_dbg s None w) = None
   \<and> mute (fst (initializer_dbg s None w)) = mute w
   \<and> run (handle s st) evs (initializer s None w) = (hostRun evs w, None)
   \<and> run (handle_ev s) evs (initializer s None w) = (hostRun evs w, None)
   \<and> run (handle_pre s st) evs (initializer_pre None w) = (hostRun evs w, None)
   \<and> run (handle_dbg s) evs (initializer_dbg s None w)
       = (hostRun evs (fst (initializer_dbg s None w)), None)
   \<and> outbox (fst (run (handle s st) evs (initializer s None w))) = outbox w
   \<and> outbox (fst (run (handle_ev s) evs (initializer s None w))) = outbox w
   \<and> outbox (fst (run (handle_dbg s) evs (initializer_dbg s None w))) = outbox w
   \<and> hostStep (PageChange url) w = w
   \<and> hostStep (AppEvent nm data) w = w
   \<and> hostStep (ComposerSaved n cat r) w = w
   \<and> hostStep (AjaxDone m u p) w = w
   \<and> hostStep TimerFired w = w
   \<and> hostStep (VoteSettled t res) w = w"
proof -
  have d: "initializer_dbg s None w = (fst (initializer_dbg s None w), None)"
    by (simp add: initializer_dbg_def Let_def)
  have r: "run (handle_dbg s) evs (initializer_dbg s None w)
             = (hostRun evs (fst (initializer_dbg s None w)), None)"
    using run_None [of "handle_dbg s" evs "fst (initializer_dbg s None w)"] d by simp
  have o: "outbox (fst (initializer_dbg s None w)) = outbox w"
    by (simp add: initializer_dbg_def Let_def)
  show ?thesis
    using r o
    by (simp add: initializer_def initializer_pre_def run_None hostStep_def)
       (simp add: initializer_dbg_def Let_def)
qed

end
